theory Spec2Isabelle
  imports Main "HOL-Library.Sublist"
begin

section \<open>JavaScript strings\<close>

text \<open>
  The admin builder (\<^verbatim>\<open>packages/strapi-admin/index.js\<close>) works on path strings with
  \<^verbatim>\<open>startsWith\<close>, \<^verbatim>\<open>split\<close>, \<^verbatim>\<open>replace\<close>, \<^verbatim>\<open>includes\<close>, \<^verbatim>\<open>join\<close> and two regular
  expressions. Strings are \<^typ>\<open>string\<close>; each method is a function on character lists.
\<close>

definition startsWith :: "string \<Rightarrow> string \<Rightarrow> bool" where
  "startsWith s p = (take (length p) s = p)"

text \<open>\<^verbatim>\<open>s.split(sep)\<close> for a non-empty separator: every piece between occurrences,
  scanned from the left; the accumulator holds the piece being read.\<close>

function split_from :: "string \<Rightarrow> string \<Rightarrow> string \<Rightarrow> string list" where
  "split_from sep acc [] = [acc]"
| "split_from sep acc (c # cs) =
     (if sep \<noteq> [] \<and> startsWith (c # cs) sep
      then acc # split_from sep [] (drop (length sep) (c # cs))
      else split_from sep (acc @ [c]) cs)"
  by pat_completeness auto
termination
  by (relation "measure (\<lambda>(sep, acc, s). length s)") auto

definition js_split :: "string \<Rightarrow> string \<Rightarrow> string list" where
  "js_split s sep = split_from sep [] s"

text \<open>\<^verbatim>\<open>arr[i]\<close> is \<^verbatim>\<open>undefined\<close> (here \<open>None\<close>) outside the array.\<close>

definition js_index :: "'a list \<Rightarrow> nat \<Rightarrow> 'a option" where
  "js_index xs i = (if i < length xs then Some (xs ! i) else None)"

text \<open>The text after the leftmost occurrence of a pattern, if there is one.\<close>

fun after_first :: "string \<Rightarrow> string \<Rightarrow> string option" where
  "after_first pat [] = (if pat = [] then Some [] else None)"
| "after_first pat (c # cs) =
     (if startsWith (c # cs) pat then Some (drop (length pat) (c # cs))
      else after_first pat cs)"

definition js_includes :: "string \<Rightarrow> string \<Rightarrow> bool" where
  "js_includes s pat = (after_first pat s \<noteq> None)"

text \<open>\<^verbatim>\<open>s.replace(pat, rep)\<close> with a string pattern replaces the leftmost occurrence
  only. The source always passes the empty replacement.\<close>

fun replace_first :: "string \<Rightarrow> string \<Rightarrow> string \<Rightarrow> string" where
  "replace_first pat rep [] = (if pat = [] then rep else [])"
| "replace_first pat rep (c # cs) =
     (if startsWith (c # cs) pat then rep @ drop (length pat) (c # cs)
      else c # replace_first pat rep cs)"

text \<open>\<^verbatim>\<open>arr.join(sep)\<close>.\<close>

fun join_with :: "string \<Rightarrow> string list \<Rightarrow> string" where
  "join_with sep [] = []"
| "join_with sep [x] = x"
| "join_with sep (x # y # ys) = x @ sep @ join_with sep (y # ys)"

text \<open>The flag \<^verbatim>\<open>i\<close> of \<^verbatim>\<open>/^strapi-plugin-/i\<close> identifies the ASCII letters of both
  cases and nothing else.\<close>

definition lower_char :: "char \<Rightarrow> char" where
  "lower_char c =
     (let n = (of_char c :: nat) in if 65 \<le> n \<and> n \<le> 90 then char_of (n + 32) else c)"

text \<open>\<^verbatim>\<open>name.replace(/^strapi-plugin-/i, '')\<close>: the short name of a plugin.\<close>

definition shortName :: "string \<Rightarrow> string" where
  "shortName name =
     (if map lower_char (take 14 name) = ''strapi-plugin-'' then drop 14 name else name)"

text \<open>
  \<^verbatim>\<open>/\/extensions\/([^\/]*)\/.*$/gm.exec(filePath)\<close>, on a regular expression made anew
  for each event. The match starts at the leftmost \<^verbatim>\<open>/extensions/\<close>; the group takes
  every character up to the next slash, which must be there; \<^verbatim>\<open>.*$\<close> then always
  matches under the flag \<^verbatim>\<open>m\<close>. An occurrence further right cannot match when the
  leftmost does not, since it would supply the slash. The result is the group, or
  \<open>None\<close> for \<^verbatim>\<open>null\<close>.
\<close>

definition match_extension :: "string \<Rightarrow> string option" where
  "match_extension filePath =
     (case after_first ''/extensions/'' filePath of
        None \<Rightarrow> None
      | Some rest \<Rightarrow>
          if CHR ''/'' \<in> set rest then Some (takeWhile (\<lambda>c. c \<noteq> CHR ''/'') rest)
          else None)"

section \<open>Paths\<close>

text \<open>
  A \<open>path\<close> is an absolute, normalised path: the list of its segments below the root.
  \<^verbatim>\<open>path.join\<close> and \<^verbatim>\<open>path.resolve\<close> are always called with an absolute first argument
  and relative further ones; both then concatenate the arguments and normalise, which
  drops empty segments and \<^verbatim>\<open>.\<close> and lets \<^verbatim>\<open>..\<close> remove the segment before it.
\<close>

type_synonym path = "string list"

definition path_step :: "path \<Rightarrow> string \<Rightarrow> path" where
  "path_step p s =
     (if s = [] \<or> s = ''.'' then p else if s = ''..'' then butlast p else p @ [s])"

definition path_join :: "path \<Rightarrow> string list \<Rightarrow> path" where
  "path_join base args = foldl path_step base (concat (map (\<lambda>a. js_split a ''/'') args))"

text \<open>An absolute path string, as the watcher reports it, read as a path.\<close>

definition parse_path :: "string \<Rightarrow> path" where
  "parse_path s = path_join [] [s]"

section \<open>The file system\<close>

text \<open>
  The builder reaches the disk through \<^verbatim>\<open>fs-extra\<close> only. The file system is a map from
  paths to nodes, with the set of paths on which the operating system refuses an
  operation (\<^verbatim>\<open>EACCES\<close>), so that the failures the builder catches can happen.
\<close>

datatype node = File string | Dir

record filesys =
  nodes :: "path \<Rightarrow> node option"
  denied :: "path \<Rightarrow> bool"

datatype error =
    MODULE_NOT_FOUND string
  | TypeError
  | ENOENT path
  | ENOTDIR path
  | EISDIR path
  | EACCES path
  | EINVAL path

definition is_file :: "node option \<Rightarrow> bool" where
  "is_file n = (case n of Some (File c) \<Rightarrow> True | _ \<Rightarrow> False)"

definition is_dir :: "node option \<Rightarrow> bool" where
  "is_dir n = (n = Some Dir)"

text \<open>\<^verbatim>\<open>fs.exists\<close>, \<^verbatim>\<open>fs.existsSync\<close> and \<^verbatim>\<open>fs.pathExistsSync\<close>.\<close>

definition pathExistsSync :: "filesys \<Rightarrow> path \<Rightarrow> bool" where
  "pathExistsSync fs p = (nodes fs p \<noteq> None)"

text \<open>\<^verbatim>\<open>mkdir -p\<close>: every missing prefix of the path becomes a directory.\<close>

definition mkdirs :: "(path \<Rightarrow> node option) \<Rightarrow> path \<Rightarrow> (path \<Rightarrow> node option)" where
  "mkdirs ns p =
     (\<lambda>q. case ns q of Some n \<Rightarrow> Some n | None \<Rightarrow> if prefix q p then Some Dir else None)"

definition file_on_way :: "filesys \<Rightarrow> path \<Rightarrow> bool" where
  "file_on_way fs p = list_ex (\<lambda>q. is_file (nodes fs q)) (prefixes p)"

definition ensureDir :: "filesys \<Rightarrow> path \<Rightarrow> error + filesys" where
  "ensureDir fs p =
     (if denied fs p then Inl (EACCES p)
      else if file_on_way fs p then Inl (ENOTDIR p)
      else Inr (fs\<lparr>nodes := mkdirs (nodes fs) p\<rparr>))"

text \<open>\<^verbatim>\<open>fs.emptyDir\<close>: the directory exists afterwards and has no entry.\<close>

definition emptyDir :: "filesys \<Rightarrow> path \<Rightarrow> error + filesys" where
  "emptyDir fs p =
     (if denied fs p then Inl (EACCES p)
      else if file_on_way fs p then Inl (ENOTDIR p)
      else Inr (fs\<lparr>nodes := (\<lambda>q. if strict_prefix p q then None else mkdirs (nodes fs) p q)\<rparr>))"

text \<open>\<^verbatim>\<open>fs.removeSync\<close>: the path and all below it are gone; a missing path is no error.\<close>

definition removeSync :: "filesys \<Rightarrow> path \<Rightarrow> error + filesys" where
  "removeSync fs p =
     (if denied fs p then Inl (EACCES p)
      else Inr (fs\<lparr>nodes := (\<lambda>q. if prefix p q then None else nodes fs q)\<rparr>))"

text \<open>
  \<^verbatim>\<open>fs.copy(src, dest)\<close> with its default options: the source must exist, it is not
  copied into itself, a directory and a file do not replace each other, the parent
  of the destination is created, and every node of the source lands at the same
  relative place below the destination, over what was there. Nodes of the destination
  that the source does not have stay.
\<close>

definition overlay :: "(path \<Rightarrow> node option) \<Rightarrow> path \<Rightarrow> path \<Rightarrow> (path \<Rightarrow> node option)" where
  "overlay ns src dest =
     (\<lambda>q. if prefix dest q
          then (case ns (src @ drop (length dest) q) of
                  Some n \<Rightarrow> Some n
                | None \<Rightarrow> mkdirs ns (butlast dest) q)
          else mkdirs ns (butlast dest) q)"

definition copy :: "filesys \<Rightarrow> path \<Rightarrow> path \<Rightarrow> error + filesys" where
  "copy fs src dest =
     (if denied fs src then Inl (EACCES src)
      else if denied fs dest then Inl (EACCES dest)
      else if nodes fs src = None then Inl (ENOENT src)
      else if prefix src dest then Inl (EINVAL dest)
      else if is_dir (nodes fs src) \<and> is_file (nodes fs dest) then Inl (ENOTDIR dest)
      else if is_file (nodes fs src) \<and> is_dir (nodes fs dest) then Inl (EISDIR dest)
      else if file_on_way fs (butlast dest) then Inl (ENOTDIR dest)
      else Inr (fs\<lparr>nodes := overlay (nodes fs) src dest\<rparr>))"

text \<open>\<^verbatim>\<open>fs.writeFile\<close>: the parent directory must exist and the path is not a directory.\<close>

definition writeFile :: "filesys \<Rightarrow> path \<Rightarrow> string \<Rightarrow> error + filesys" where
  "writeFile fs p content =
     (if denied fs p then Inl (EACCES p)
      else if \<not> is_dir (nodes fs (butlast p)) then Inl (ENOENT p)
      else if is_dir (nodes fs p) then Inl (EISDIR p)
      else Inr (fs\<lparr>nodes := (nodes fs)(p := Some (File content))\<rparr>))"

section \<open>The environment: installed packages and JSON modules\<close>

text \<open>
  \<^verbatim>\<open>require.resolve(name + '/package.json')\<close> is a lookup in the installed packages and
  throws for a name it does not find; \<^verbatim>\<open>require\<close> of the project's \<^verbatim>\<open>package.json\<close>
  throws when the file is missing or is not JSON. For a manifest that loads, the
  environment gives the keys of its \<^verbatim>\<open>dependencies\<close> in the order written, or \<open>None\<close>
  when it has no such field (\<^verbatim>\<open>Object.keys(undefined)\<close> throws).
\<close>

record env =
  packages :: "string \<Rightarrow> path option"
  json_modules :: "path \<Rightarrow> string list option option"

definition getPkgPath :: "env \<Rightarrow> string \<Rightarrow> error + path" where
  "getPkgPath e name =
     (case packages e name of None \<Rightarrow> Inl (MODULE_NOT_FOUND name) | Some p \<Rightarrow> Inr p)"

definition dependency_keys :: "env \<Rightarrow> path \<Rightarrow> error + string list" where
  "dependency_keys e p =
     (case json_modules e p of
        None \<Rightarrow> Inl (MODULE_NOT_FOUND (join_with ''/'' p))
      | Some None \<Rightarrow> Inl TypeError
      | Some (Some deps) \<Rightarrow> Inr deps)"

section \<open>Sequencing operations that can fail\<close>

text \<open>An exception (a rejected promise) is \<open>Inl\<close>; \<open>bindE\<close> is \<^verbatim>\<open>await\<close> followed by the
  rest of the function.\<close>

definition bindE :: "error + 'a \<Rightarrow> ('a \<Rightarrow> error + 'b) \<Rightarrow> error + 'b" where
  "bindE m f = (case m of Inl e \<Rightarrow> Inl e | Inr x \<Rightarrow> f x)"

fun foldE :: "('a \<Rightarrow> 's \<Rightarrow> error + 's) \<Rightarrow> 'a list \<Rightarrow> 's \<Rightarrow> error + 's" where
  "foldE f [] s = Inr s"
| "foldE f (x # xs) s = bindE (f x s) (foldE f xs)"

fun filterE :: "('a \<Rightarrow> error + bool) \<Rightarrow> 'a list \<Rightarrow> error + 'a list" where
  "filterE f [] = Inr []"
| "filterE f (x # xs) =
     bindE (f x) (\<lambda>b. bindE (filterE f xs) (\<lambda>ys. Inr (if b then x # ys else ys)))"

section \<open>The manifest: createPluginsJs\<close>

definition plugin_require :: "string \<Rightarrow> string" where
  "plugin_require name = ''require('../../plugins/'' @ name @ ''/admin/src').default''"

definition plugin_entry :: "string \<Rightarrow> string" where
  "plugin_entry name = [CHR 0x27] @ shortName name @ [CHR 0x27] @ '': '' @ plugin_require name"

definition manifest_head :: string where
  "manifest_head =
     ''\<newline>'' @
     ''    const injectReducer = require('./utils/injectReducer').default;\<newline>'' @
     ''    const injectSaga = require('./utils/injectSaga').default;\<newline>'' @
     ''    const useInjectReducer = require('./utils/injectReducer').useInjectReducer;\<newline>'' @
     ''    const useInjectSaga = require('./utils/injectSaga').useInjectSaga;\<newline>'' @
     ''    const { languages } = require('./i18n');\<newline>'' @
     ''\<newline>'' @
     ''    window.strapi = Object.assign(window.strapi || {}, {\<newline>'' @
     ''      node: MODE || 'host',\<newline>'' @
     ''      backendURL: BACKEND_URL === '/' ? window.location.origin : BACKEND_URL,\<newline>'' @
     ''      languages,\<newline>'' @
     ''      currentLanguage:\<newline>'' @
     ''      window.localStorage.getItem('strapi-admin-language') ||\<newline>'' @
     ''      window.navigator.language ||\<newline>'' @
     ''      window.navigator.userLanguage ||\<newline>'' @
     ''      'en',\<newline>'' @
     ''      injectReducer,\<newline>'' @
     ''      injectSaga,\<newline>'' @
     ''      useInjectReducer,\<newline>'' @
     ''      useInjectSaga,\<newline>'' @
     ''    });\<newline>'' @
     ''\<newline>'' @
     ''    module.exports = {\<newline>'' @
     ''      ''"

definition manifest_tail :: string where
  "manifest_tail = ''\<newline>    }\<newline>  ''"

definition plugins_js_content :: "string list \<Rightarrow> string" where
  "plugins_js_content plugins =
     manifest_head @ join_with '',\<newline>'' (map plugin_entry plugins) @ manifest_tail"

definition createPluginsJs :: "string list \<Rightarrow> path \<Rightarrow> filesys \<Rightarrow> error + filesys" where
  "createPluginsJs plugins dest fs =
     writeFile fs (path_join dest [''admin'', ''src'', ''plugins.js''])
       (plugins_js_content plugins)"

section \<open>Materialising the cache directory\<close>

definition copyPlugin :: "env \<Rightarrow> path \<Rightarrow> string \<Rightarrow> filesys \<Rightarrow> error + filesys" where
  "copyPlugin e dest name fs =
     bindE (getPkgPath e name) (\<lambda>pkgFilePath.
     bindE (copy fs (path_join pkgFilePath [''admin''])
              (path_join dest [''plugins'', name, ''admin''])) (\<lambda>fs1.
     bindE (if pathExistsSync fs1 (path_join pkgFilePath [''config'', ''layout.js''])
            then bindE (ensureDir fs1 (path_join dest [''plugins'', name, ''config''])) (\<lambda>fs2.
                   copy fs2 (path_join pkgFilePath [''config'', ''layout.js''])
                     (path_join dest [''plugins'', name, ''config'', ''layout.js'']))
            else Inr fs1) (\<lambda>fs3.
     copy fs3 (path_join pkgFilePath [''package.json''])
       (path_join dest [''plugins'', name, ''package.json'']))))"

definition copyAdmin :: "env \<Rightarrow> path \<Rightarrow> filesys \<Rightarrow> error + filesys" where
  "copyAdmin e dest fs =
     bindE (getPkgPath e ''strapi-admin'') (\<lambda>adminPath.
     bindE (ensureDir fs (path_join dest [''config''])) (\<lambda>fs1.
     bindE (copy fs1 (path_join adminPath [''admin'']) (path_join dest [''admin''])) (\<lambda>fs2.
     copy fs2 (path_join adminPath [''config'', ''layout.js''])
       (path_join dest [''config'', ''layout.js'']))))"

definition copyCustomAdmin :: "path \<Rightarrow> path \<Rightarrow> filesys \<Rightarrow> error + filesys" where
  "copyCustomAdmin src dest fs = copy fs src (path_join dest [''admin''])"

text \<open>The filter of \<^verbatim>\<open>createCacheDir\<close> and \<^verbatim>\<open>watchFiles\<close>: \<^verbatim>\<open>getPkgPath\<close> is called, and
  can throw, only for a name that has the prefix.\<close>

definition hasAdminEntry :: "env \<Rightarrow> filesys \<Rightarrow> string \<Rightarrow> error + bool" where
  "hasAdminEntry e fs dep =
     (if startsWith dep ''strapi-plugin''
      then bindE (getPkgPath e dep) (\<lambda>p.
             Inr (pathExistsSync fs (path_join p [''admin'', ''src'', ''index.js''])))
      else Inr False)"

definition activePlugins :: "env \<Rightarrow> filesys \<Rightarrow> path \<Rightarrow> error + string list" where
  "activePlugins e fs dir =
     bindE (dependency_keys e (path_join dir [''package.json'']))
       (filterE (hasAdminEntry e fs))"

definition pluginsToOverride :: "filesys \<Rightarrow> path \<Rightarrow> string list \<Rightarrow> string list" where
  "pluginsToOverride fs dir pluginsToCopy =
     foldl (\<lambda>acc current.
              let pluginName = shortName current
              in if pathExistsSync fs (path_join dir [''extensions'', pluginName, ''admin''])
                 then acc @ [pluginName] else acc)
           [] pluginsToCopy"

definition copyExtension :: "path \<Rightarrow> path \<Rightarrow> string \<Rightarrow> filesys \<Rightarrow> error + filesys" where
  "copyExtension dir cacheDir plugin fs =
     copyCustomAdmin (path_join dir [''extensions'', plugin, ''admin''])
       (path_join cacheDir [''plugins'', ''strapi-plugin-'' @ plugin]) fs"

text \<open>
  \<^verbatim>\<open>createCacheDir\<close>. The copies that \<^verbatim>\<open>Promise.all\<close> starts together run here one after
  the other, in the order of the list.
\<close>

definition createCacheDir :: "env \<Rightarrow> filesys \<Rightarrow> path \<Rightarrow> error + filesys" where
  "createCacheDir e fs dir =
     (let cacheDir = path_join dir [''.cache''] in
      bindE (activePlugins e fs dir) (\<lambda>pluginsToCopy.
      bindE (emptyDir fs cacheDir) (\<lambda>fs1.
      bindE (copyAdmin e cacheDir fs1) (\<lambda>fs2.
      bindE (foldE (copyPlugin e cacheDir) pluginsToCopy fs2) (\<lambda>fs3.
      bindE (createPluginsJs pluginsToCopy cacheDir fs3) (\<lambda>fs4.
      bindE (if pathExistsSync fs4 (path_join dir [''admin''])
             then copyCustomAdmin (path_join dir [''admin'']) cacheDir fs4
             else Inr fs4) (\<lambda>fs5.
      foldE (copyExtension dir cacheDir) (pluginsToOverride fs5 dir pluginsToCopy) fs5)))))))"

section \<open>build\<close>

text \<open>
  What \<^verbatim>\<open>compiler.run\<close> hands to its callback: an error of its own, with or without a
  message, or the statistics, of which \<^verbatim>\<open>toJson\<close> gives the errors and the warnings.
\<close>

datatype 'stats bundler_result =
    RunError "string option"
  | Stats 'stats "string list" "string list"

datatype 'stats build_result =
    Resolved 'stats "string list"
  | RejectedRaw "string option"
  | RejectedError string
  | RejectedBefore error

text \<open>\<^verbatim>\<open>!err.message\<close> holds for a missing message and for the empty one.
  \<^verbatim>\<open>messages.errors.length = 1\<close> cuts the array to its first element.\<close>

definition run_callback :: "'stats bundler_result \<Rightarrow> 'stats build_result" where
  "run_callback r =
     (case r of
        RunError None \<Rightarrow> RejectedRaw None
      | RunError (Some m) \<Rightarrow>
          if m = [] then RejectedRaw (Some m) else RejectedError (join_with ''\<newline>\<newline>'' [m])
      | Stats stats errors warnings \<Rightarrow>
          if length errors \<noteq> 0
          then RejectedError
                 (join_with ''\<newline>\<newline>'' (if length errors > 1 then take 1 errors else errors))
          else Resolved stats warnings)"

text \<open>\<^verbatim>\<open>build\<close>: the bundler runs on the materialised tree.\<close>

definition build :: "env \<Rightarrow> (filesys \<Rightarrow> 'stats bundler_result) \<Rightarrow> filesys \<Rightarrow> path \<Rightarrow> 'stats build_result" where
  "build e compiler fs dir =
     (case createCacheDir e fs dir of
        Inl err \<Rightarrow> RejectedBefore err
      | Inr fs' \<Rightarrow> run_callback (compiler fs'))"

section \<open>watchFiles\<close>

datatype event = Add | AddDir | Change | Unlink | UnlinkDir

text \<open>What the handler prints with \<^verbatim>\<open>console.log\<close>.\<close>

datatype log_entry = DeleteFailed error | CopyFailed error

text \<open>The state a handler works on: the disk, the console, and the plugin lists with
  which \<^verbatim>\<open>createPluginsJs\<close> has been called so far.\<close>

record wstate =
  disk :: filesys
  console :: "log_entry list"
  manifest_calls :: "string list list"

definition isExtension :: "string \<Rightarrow> bool" where
  "isExtension filePath = (match_extension filePath \<noteq> None)"

definition pluginName :: "string \<Rightarrow> string" where
  "pluginName filePath = (case match_extension filePath of Some g \<Rightarrow> g | None \<Rightarrow> [])"

definition packageName :: "string \<Rightarrow> string" where
  "packageName filePath =
     (if isExtension filePath then ''strapi-plugin-'' @ pluginName filePath else ''strapi-admin'')"

text \<open>\<^verbatim>\<open>targetPath\<close>: reading \<^verbatim>\<open>.replace\<close> of \<^verbatim>\<open>undefined\<close> throws; in the other branch
  \<^verbatim>\<open>undefined\<close> is kept, and \<^verbatim>\<open>path.join\<close> throws when it gets it.\<close>

definition targetPath :: "string \<Rightarrow> error + string option" where
  "targetPath filePath =
     (if isExtension filePath
      then (case js_index (js_split filePath ''/extensions/'') 1 of
              None \<Rightarrow> Inl TypeError
            | Some s \<Rightarrow> Inr (Some (replace_first (pluginName filePath) [] s)))
      else Inr (js_index (js_split filePath ''/admin'') 1))"

definition destFolder :: "path \<Rightarrow> string \<Rightarrow> path" where
  "destFolder cacheDir filePath =
     (if isExtension filePath then path_join cacheDir [''plugins'', packageName filePath]
      else path_join cacheDir [''admin''])"

definition join_target :: "path \<Rightarrow> string list \<Rightarrow> string option \<Rightarrow> error + path" where
  "join_target base args target =
     (case target of None \<Rightarrow> Inl TypeError | Some t \<Rightarrow> Inr (path_join base (args @ [t])))"

definition shouldCopyPluginsJSFile :: "string \<Rightarrow> bool" where
  "shouldCopyPluginsJSFile filePath =
     (length (filter (\<lambda>p. p \<noteq> []) (js_split filePath ''/admin/src'')) = 1)"

text \<open>\<^verbatim>\<open>originalFilePathInNodeModules\<close>, computed before the first \<^verbatim>\<open>try\<close>:
  \<^verbatim>\<open>getPkgPath\<close> or \<^verbatim>\<open>path.join\<close> may throw here.\<close>

definition originalFilePathInNodeModules :: "env \<Rightarrow> string \<Rightarrow> string option \<Rightarrow> error + path" where
  "originalFilePathInNodeModules e filePath target =
     bindE (getPkgPath e (packageName filePath)) (\<lambda>pkg.
       join_target pkg [if isExtension filePath then [] else ''admin''] target)"

text \<open>\<^verbatim>\<open>path.join(destFolder, targetPath)\<close>.\<close>

definition destination :: "path \<Rightarrow> string \<Rightarrow> string option \<Rightarrow> error + path" where
  "destination cacheDir filePath target = join_target (destFolder cacheDir filePath) [] target"

text \<open>The first \<^verbatim>\<open>try\<close> of a deletion: a failure of \<^verbatim>\<open>removeSync\<close> is printed.\<close>

definition remove_step :: "wstate \<Rightarrow> path \<Rightarrow> wstate" where
  "remove_step st dest =
     (case removeSync (disk st) dest of
        Inl err \<Rightarrow> st\<lparr>console := console st @ [DeleteFailed err]\<rparr>
      | Inr fs1 \<Rightarrow> st\<lparr>disk := fs1\<rparr>)"

text \<open>The second \<^verbatim>\<open>try\<close> of a deletion: its \<^verbatim>\<open>catch\<close> does nothing, so a failure
  leaves the state as the step that failed found it.\<close>

definition restore :: "string list \<Rightarrow> path \<Rightarrow> event \<Rightarrow> string \<Rightarrow> path \<Rightarrow> path \<Rightarrow> wstate \<Rightarrow> wstate" where
  "restore appPlugins cacheDir ev filePath original dest st =
     (case copy (disk st) original dest of
        Inl err \<Rightarrow> st
      | Inr fs1 \<Rightarrow>
          if (ev = UnlinkDir \<and> \<not> isExtension filePath \<and> shouldCopyPluginsJSFile filePath)
             \<or> (\<not> isExtension filePath \<and> js_includes filePath ''plugins.js'')
          then (case createPluginsJs appPlugins cacheDir fs1 of
                  Inl err \<Rightarrow>
                    st\<lparr>disk := fs1, manifest_calls := manifest_calls st @ [appPlugins]\<rparr>
                | Inr fs2 \<Rightarrow>
                    st\<lparr>disk := fs2, manifest_calls := manifest_calls st @ [appPlugins]\<rparr>)
          else st\<lparr>disk := fs1\<rparr>)"

definition on_unlink :: "env \<Rightarrow> path \<Rightarrow> string list \<Rightarrow> event \<Rightarrow> string \<Rightarrow> string option \<Rightarrow> wstate \<Rightarrow> error + wstate" where
  "on_unlink e cacheDir appPlugins ev filePath target st =
     bindE (originalFilePathInNodeModules e filePath target) (\<lambda>original.
     bindE (destination cacheDir filePath target) (\<lambda>dest.
       let st1 = remove_step st dest
       in if pathExistsSync (disk st1) original
          then Inr (restore appPlugins cacheDir ev filePath original dest st1)
          else Inr st1))"

text \<open>Any other event: the \<^verbatim>\<open>try\<close> holds \<^verbatim>\<open>path.join\<close> and the copy, and its \<^verbatim>\<open>catch\<close>
  prints the error.\<close>

definition on_change :: "path \<Rightarrow> string \<Rightarrow> string option \<Rightarrow> wstate \<Rightarrow> wstate" where
  "on_change cacheDir filePath target st =
     (case bindE (destination cacheDir filePath target) (copy (disk st) (parse_path filePath)) of
        Inl err \<Rightarrow> st\<lparr>console := console st @ [CopyFailed err]\<rparr>
      | Inr fs1 \<Rightarrow> st\<lparr>disk := fs1\<rparr>)"

text \<open>The handler of \<^verbatim>\<open>watcher.on('all', ...)\<close>. \<open>Inl\<close> is a rejection of the promise
  the handler returns, which nothing catches.\<close>

definition on_all :: "env \<Rightarrow> path \<Rightarrow> string list \<Rightarrow> event \<Rightarrow> string \<Rightarrow> wstate \<Rightarrow> error + wstate" where
  "on_all e dir appPlugins ev filePath st =
     (let cacheDir = path_join dir [''.cache''] in
      bindE (targetPath filePath) (\<lambda>target.
        if ev = Unlink \<or> ev = UnlinkDir
        then on_unlink e cacheDir appPlugins ev filePath target st
        else Inr (on_change cacheDir filePath target st)))"

text \<open>\<^verbatim>\<open>watchFiles\<close>: the plugins and the watched roots are computed once, then every
  event goes through the handler, in the order delivered.\<close>

definition filesToWatch :: "path \<Rightarrow> string list \<Rightarrow> path list" where
  "filesToWatch dir appPlugins =
     path_join dir [''admin'']
       # map (\<lambda>plugin. path_join dir [''extensions'', shortName plugin, ''admin'']) appPlugins"

definition run_events :: "env \<Rightarrow> path \<Rightarrow> string list \<Rightarrow> (event \<times> string) list \<Rightarrow> wstate \<Rightarrow> error + wstate" where
  "run_events e dir appPlugins events st =
     foldE (\<lambda>(ev, filePath). on_all e dir appPlugins ev filePath) events st"

definition watchFiles :: "env \<Rightarrow> path \<Rightarrow> (event \<times> string) list \<Rightarrow> wstate \<Rightarrow> error + wstate" where
  "watchFiles e dir events st =
     bindE (activePlugins e (disk st) dir) (\<lambda>appPlugins. run_events e dir appPlugins events st)"

section \<open>The layers of a project\<close>

text \<open>
  What \<^verbatim>\<open>createCacheDir\<close> does once the plugins are known and the cache directory is
  empty: the part of its body from \<^verbatim>\<open>copyAdmin\<close> on.
\<close>

definition fill_cache :: "env \<Rightarrow> path \<Rightarrow> string list \<Rightarrow> filesys \<Rightarrow> error + filesys" where
  "fill_cache e dir pluginsToCopy fs1 =
     (let cacheDir = path_join dir [''.cache''] in
      bindE (copyAdmin e cacheDir fs1) (\<lambda>fs2.
      bindE (foldE (copyPlugin e cacheDir) pluginsToCopy fs2) (\<lambda>fs3.
      bindE (createPluginsJs pluginsToCopy cacheDir fs3) (\<lambda>fs4.
      bindE (if pathExistsSync fs4 (path_join dir [''admin''])
             then copyCustomAdmin (path_join dir [''admin'']) cacheDir fs4
             else Inr fs4) (\<lambda>fs5.
      foldE (copyExtension dir cacheDir) (pluginsToOverride fs5 dir pluginsToCopy) fs5)))))"

text \<open>Two paths lie apart when neither is at or above the other.\<close>

definition apart :: "path \<Rightarrow> path \<Rightarrow> bool" where
  "apart a b = (\<not> prefix a b \<and> \<not> prefix b a)"

text \<open>
  \<open>keeps c f g\<close>: the disk \<open>g\<close> differs from \<open>f\<close> strictly below the directory \<open>c\<close> at
  most. \<open>rooted c f\<close>: the directory \<open>c\<close> and all above it exist.
\<close>

definition keeps :: "path \<Rightarrow> filesys \<Rightarrow> filesys \<Rightarrow> bool" where
  "keeps c f g = (denied g = denied f \<and> (\<forall>q. \<not> strict_prefix c q \<longrightarrow> nodes g q = nodes f q))"

definition rooted :: "path \<Rightarrow> filesys \<Rightarrow> bool" where
  "rooted c f = (\<forall>q. prefix q c \<longrightarrow> nodes f q \<noteq> None)"

text \<open>
  A project whose layers stay as they are while the cache is built: the declared
  dependencies with the plugin prefix are single path segments, and what is read
  from the installed packages (the admin tree with the admin entry, the layout and
  the package descriptor) lies apart from the cache directory. In a \<open>dashed\<close>
  project the names with the prefix \<^verbatim>\<open>strapi-plugin\<close> have the prefix
  \<^verbatim>\<open>strapi-plugin-\<close>, which is the one that the short name drops.
\<close>

definition plugin_sources :: "path \<Rightarrow> path list" where
  "plugin_sources root =
     [root @ [''admin''], root @ [''config'', ''layout.js''], root @ [''package.json'']]"

definition base_sources :: "path \<Rightarrow> path list" where
  "base_sources root = [root @ [''admin''], root @ [''config'', ''layout.js'']]"

definition fixed_project :: "env \<Rightarrow> path \<Rightarrow> bool" where
  "fixed_project e dir =
     ((\<forall>root. packages e ''strapi-admin'' = Some root \<longrightarrow>
         (\<forall>src \<in> set (base_sources root). apart (dir @ [''.cache'']) src))
      \<and> (\<forall>deps d. dependency_keys e (path_join dir [''package.json'']) = Inr deps \<and>
            d \<in> set deps \<and> startsWith d ''strapi-plugin'' \<longrightarrow>
            CHR ''/'' \<notin> set d \<and>
            (\<forall>root. packages e d = Some root \<longrightarrow>
               (\<forall>src \<in> set (plugin_sources root). apart (dir @ [''.cache'']) src))))"

definition dashed :: "env \<Rightarrow> path \<Rightarrow> bool" where
  "dashed e dir =
     (\<forall>deps d. dependency_keys e (path_join dir [''package.json'']) = Inr deps \<and>
        d \<in> set deps \<and> startsWith d ''strapi-plugin'' \<longrightarrow> startsWith d ''strapi-plugin-'')"

text \<open>
  The layers, read at a path relative to the cache directory. Each gives the node
  that the layer has for that path, if it has one: the installed admin, of which
  the admin tree and the layout are copied; an installed plugin, of which the admin
  tree, the layout when there is one, and the package descriptor are copied; the
  project's override of the admin, which is there when \<^verbatim>\<open><dir>/admin\<close> exists; the
  project's override of a plugin, which is there when the directory
  \<^verbatim>\<open>path.join(dir, 'extensions', shortName, 'admin')\<close> exists.
\<close>

definition base_layer :: "env \<Rightarrow> filesys \<Rightarrow> path \<Rightarrow> node option" where
  "base_layer e fs rel =
     (case packages e ''strapi-admin'' of
        None \<Rightarrow> None
      | Some root \<Rightarrow>
          if prefix [''admin''] rel \<or> prefix [''config'', ''layout.js''] rel
          then nodes fs (root @ rel) else None)"

definition plugin_layer :: "env \<Rightarrow> filesys \<Rightarrow> string \<Rightarrow> path \<Rightarrow> node option" where
  "plugin_layer e fs name rel =
     (case packages e name of
        None \<Rightarrow> None
      | Some root \<Rightarrow>
          if prefix [''admin''] rel \<or> prefix [''package.json''] rel
             \<or> (prefix [''config'', ''layout.js''] rel
                 \<and> pathExistsSync fs (root @ [''config'', ''layout.js'']))
          then nodes fs (root @ rel) else None)"

definition project_override :: "filesys \<Rightarrow> path \<Rightarrow> path \<Rightarrow> node option" where
  "project_override fs dir rel =
     (if prefix [''admin''] rel \<and> pathExistsSync fs (dir @ [''admin''])
      then nodes fs (dir @ rel) else None)"

definition extension_root :: "path \<Rightarrow> string \<Rightarrow> path" where
  "extension_root dir name = path_join dir [''extensions'', shortName name, ''admin'']"

definition extension_override :: "filesys \<Rightarrow> path \<Rightarrow> string \<Rightarrow> path \<Rightarrow> node option" where
  "extension_override fs dir name rel =
     (case rel of
        [] \<Rightarrow> None
      | seg # r \<Rightarrow>
          if seg = ''admin'' \<and> pathExistsSync fs (extension_root dir name)
          then nodes fs (extension_root dir name @ r) else None)"

text \<open>
  What the layers have at a relative path of the cache directory, from the highest
  precedence down: below \<^verbatim>\<open>plugins/<name>\<close> the override and the installed tree of that
  plugin, elsewhere the project's admin and the installed admin. \<open>first_of\<close> is the
  first of them to have the path.
\<close>

definition layers_at :: "env \<Rightarrow> filesys \<Rightarrow> path \<Rightarrow> string list \<Rightarrow> path \<Rightarrow> node option list" where
  "layers_at e fs dir plugins rel =
     (case rel of
        [] \<Rightarrow> []
      | seg # rest \<Rightarrow>
          if seg = ''plugins''
          then (case rest of
                  [] \<Rightarrow> []
                | name # r \<Rightarrow>
                    if name \<in> set plugins
                    then [extension_override fs dir name r, plugin_layer e fs name r]
                    else [])
          else [project_override fs dir rel, base_layer e fs rel])"

definition first_of :: "node option list \<Rightarrow> node option" where
  "first_of xs = (case filter (\<lambda>x. x \<noteq> None) xs of [] \<Rightarrow> None | x # ys \<Rightarrow> x)"

definition merged_layers :: "env \<Rightarrow> filesys \<Rightarrow> path \<Rightarrow> string list \<Rightarrow> path \<Rightarrow> node option" where
  "merged_layers e fs dir plugins rel = first_of (layers_at e fs dir plugins rel)"

text \<open>The file that the builder generates: the manifest, at its place in the cache.\<close>

definition generated :: "string list \<Rightarrow> path \<Rightarrow> node option" where
  "generated plugins rel =
     (if rel = [''admin'', ''src'', ''plugins.js'']
      then Some (File (plugins_js_content plugins)) else None)"

section \<open>Reading results\<close>

definition isOK :: "error + 'a \<Rightarrow> bool" where
  "isOK r = (case r of Inl e \<Rightarrow> False | Inr x \<Rightarrow> True)"

definition error_of :: "error + 'a \<Rightarrow> error option" where
  "error_of r = (case r of Inl e \<Rightarrow> Some e | Inr x \<Rightarrow> None)"

definition disk_after :: "error + wstate \<Rightarrow> path \<Rightarrow> node option" where
  "disk_after r p = (case r of Inl e \<Rightarrow> None | Inr st \<Rightarrow> nodes (disk st) p)"

definition console_after :: "error + wstate \<Rightarrow> log_entry list" where
  "console_after r = (case r of Inl e \<Rightarrow> [] | Inr st \<Rightarrow> console st)"

definition tree_after :: "error + filesys \<Rightarrow> path \<Rightarrow> node option" where
  "tree_after r p = (case r of Inl e \<Rightarrow> None | Inr fs \<Rightarrow> nodes fs p)"


text \<open>A path written as the watcher reports it: every segment after a slash.\<close>

fun render :: "path \<Rightarrow> string" where
  "render [] = []"
| "render (s # p) = CHR ''/'' # s @ render p"

section \<open>Override paths\<close>

text \<open>
  The watcher receives paths below the watched roots: \<^verbatim>\<open><dir>/admin/<rel>\<close> for the
  project's override of the admin and \<^verbatim>\<open><dir>/extensions/<name>/admin/<rel>\<close> for the
  override of a plugin. \<open>override_path e dir filePath dest lower\<close> says that \<open>filePath\<close> is
  such a path, that \<open>dest\<close> is the place in the cache of the same relative path, and
  that \<open>lower\<close> is the same relative path in the layer below: the installed admin, or
  the installed plugin. It is stated for path segments that hold no slash, are not
  \<^verbatim>\<open>.\<close> or \<^verbatim>\<open>..\<close>, are not \<^verbatim>\<open>extensions\<close> and, for an override of the admin, do not begin with
  \<^verbatim>\<open>admin\<close>.
\<close>

definition plain_segment :: "string \<Rightarrow> bool" where
  "plain_segment s = (s \<noteq> [] \<and> CHR ''/'' \<notin> set s \<and> s \<noteq> ''.'' \<and> s \<noteq> ''..'')"

definition extension_free :: "path \<Rightarrow> bool" where
  "extension_free p = (\<forall>s \<in> set p. plain_segment s \<and> s \<noteq> ''extensions'')"

definition override_free :: "path \<Rightarrow> bool" where
  "override_free p =
     (\<forall>s \<in> set p. plain_segment s \<and> s \<noteq> ''extensions'' \<and> \<not> startsWith s ''admin'')"

inductive override_path :: "env \<Rightarrow> path \<Rightarrow> string \<Rightarrow> path \<Rightarrow> path \<Rightarrow> bool" for e dir where
  project:
    "override_free dir \<Longrightarrow> override_free rel \<Longrightarrow> packages e ''strapi-admin'' = Some root \<Longrightarrow>
     override_path e dir (render (dir @ ''admin'' # rel))
       (dir @ [''.cache'', ''admin''] @ rel) (root @ ''admin'' # rel)"
| extension:
    "extension_free dir \<Longrightarrow> plain_segment name \<Longrightarrow> extension_free rel \<Longrightarrow>
     packages e (''strapi-plugin-'' @ name) = Some root \<Longrightarrow>
     override_path e dir (render (dir @ [''extensions'', name, ''admin''] @ rel))
       (dir @ [''.cache'', ''plugins'', ''strapi-plugin-'' @ name, ''admin''] @ rel)
       (root @ ''admin'' # rel)"

text \<open>An event that the handler can take without a rejection: for a deletion, the
  package that the path names is installed, and the path holds the text at which the
  handler cuts it.\<close>

definition resolvable :: "env \<Rightarrow> event \<Rightarrow> string \<Rightarrow> bool" where
  "resolvable e ev filePath =
     (ev = Unlink \<or> ev = UnlinkDir \<longrightarrow>
        packages e (packageName filePath) \<noteq> None \<and>
        (isExtension filePath \<or> js_includes filePath ''/admin''))"

text \<open>What a handler prints for an event: the failure of the removal, or the failure
  of the copy of a created or changed path, and nothing else.\<close>

definition expected_log :: "path \<Rightarrow> event \<Rightarrow> string \<Rightarrow> string option \<Rightarrow> wstate \<Rightarrow> log_entry list" where
  "expected_log cacheDir ev filePath target st =
     (if ev = Unlink \<or> ev = UnlinkDir
      then (case bindE (destination cacheDir filePath target) (removeSync (disk st)) of
              Inl err \<Rightarrow> [DeleteFailed err]
            | Inr fs1 \<Rightarrow> [])
      else (case bindE (destination cacheDir filePath target)
                   (copy (disk st) (parse_path filePath)) of
              Inl err \<Rightarrow> [CopyFailed err]
            | Inr fs1 \<Rightarrow> []))"

section \<open>What the export mapping means\<close>






section \<open>Example projects\<close>

text \<open>
  A project at \<^verbatim>\<open>/proj\<close> that declares \<^verbatim>\<open>strapi\<close>, \<^verbatim>\<open>strapi-plugin-email\<close> (installed,
  without an admin entry) and \<^verbatim>\<open>strapi-plugin-users\<close>; it overrides \<^verbatim>\<open>app.js\<close> of the
  admin and \<^verbatim>\<open>index.js\<close> of the users plugin.
\<close>

definition demo_packages :: "(string \<times> path) list" where
  "demo_packages =
     [(''strapi-admin'', [''proj'', ''node_modules'', ''strapi-admin'']),
      (''strapi-plugin-email'', [''proj'', ''node_modules'', ''strapi-plugin-email'']),
      (''strapi-plugin-users'', [''proj'', ''node_modules'', ''strapi-plugin-users''])]"

definition demo_env :: env where
  "demo_env =
     \<lparr>packages = map_of demo_packages,
      json_modules = map_of
        [([''proj'', ''package.json''],
          Some [''strapi'', ''strapi-plugin-email'', ''strapi-plugin-users''])]\<rparr>"


definition demo_tree :: "(path \<times> node) list" where
  "demo_tree =
     [([], Dir),
      ([''proj''], Dir),
      ([''proj'', ''node_modules''], Dir),
      ([''proj'', ''node_modules'', ''strapi-admin''], Dir),
      ([''proj'', ''node_modules'', ''strapi-admin'', ''admin''], Dir),
      ([''proj'', ''node_modules'', ''strapi-admin'', ''admin'', ''src''], Dir),
      ([''proj'', ''node_modules'', ''strapi-admin'', ''admin'', ''src'', ''app.js''],
         File ''base app''),
      ([''proj'', ''node_modules'', ''strapi-admin'', ''config''], Dir),
      ([''proj'', ''node_modules'', ''strapi-admin'', ''config'', ''layout.js''],
         File ''base layout''),
      ([''proj'', ''node_modules'', ''strapi-plugin-email''], Dir),
      ([''proj'', ''node_modules'', ''strapi-plugin-email'', ''package.json''],
         File ''email package''),
      ([''proj'', ''node_modules'', ''strapi-plugin-users''], Dir),
      ([''proj'', ''node_modules'', ''strapi-plugin-users'', ''package.json''],
         File ''users package''),
      ([''proj'', ''node_modules'', ''strapi-plugin-users'', ''admin''], Dir),
      ([''proj'', ''node_modules'', ''strapi-plugin-users'', ''admin'', ''src''], Dir),
      ([''proj'', ''node_modules'', ''strapi-plugin-users'', ''admin'', ''src'', ''index.js''],
         File ''users index''),
      ([''proj'', ''admin''], Dir),
      ([''proj'', ''admin'', ''src''], Dir),
      ([''proj'', ''admin'', ''src'', ''app.js''], File ''custom app''),
      ([''proj'', ''extensions''], Dir),
      ([''proj'', ''extensions'', ''users''], Dir),
      ([''proj'', ''extensions'', ''users'', ''admin''], Dir),
      ([''proj'', ''extensions'', ''users'', ''admin'', ''src''], Dir),
      ([''proj'', ''extensions'', ''users'', ''admin'', ''src'', ''index.js''],
         File ''custom users index'')]"

definition demo_fs :: filesys where
  "demo_fs = \<lparr>nodes = map_of demo_tree, denied = (\<lambda>p. False)\<rparr>"

text \<open>A disk that holds nothing but the directory \<^verbatim>\<open>admin/src\<close> below a root.\<close>

definition src_only :: "path \<Rightarrow> filesys" where
  "src_only dest =
     \<lparr>nodes = (\<lambda>p. if prefix p (dest @ [''admin'', ''src'']) then Some Dir else None),
      denied = (\<lambda>p. False)\<rparr>"

text \<open>
  The same project while it is watched, after the overrides of \<^verbatim>\<open>app.js\<close>,
  \<^verbatim>\<open>plugins.js\<close> and of the plugin's \<^verbatim>\<open>index.js\<close> have been deleted from the project:
  the cache still holds their content. The base layer has a \<^verbatim>\<open>plugins.js\<close> of its own
  and a directory \<^verbatim>\<open>translations\<close>.
\<close>

definition watch_tree :: "(path \<times> node) list" where
  "watch_tree =
     [([], Dir),
      ([''proj''], Dir),
      ([''proj'', ''node_modules''], Dir),
      ([''proj'', ''node_modules'', ''strapi-admin''], Dir),
      ([''proj'', ''node_modules'', ''strapi-admin'', ''admin''], Dir),
      ([''proj'', ''node_modules'', ''strapi-admin'', ''admin'', ''src''], Dir),
      ([''proj'', ''node_modules'', ''strapi-admin'', ''admin'', ''src'', ''app.js''],
         File ''base app''),
      ([''proj'', ''node_modules'', ''strapi-admin'', ''admin'', ''src'', ''plugins.js''],
         File ''base plugins''),
      ([''proj'', ''node_modules'', ''strapi-admin'', ''admin'', ''translations''], Dir),
      ([''proj'', ''node_modules'', ''strapi-plugin-users''], Dir),
      ([''proj'', ''node_modules'', ''strapi-plugin-users'', ''admin''], Dir),
      ([''proj'', ''node_modules'', ''strapi-plugin-users'', ''admin'', ''src''], Dir),
      ([''proj'', ''node_modules'', ''strapi-plugin-users'', ''admin'', ''src'', ''index.js''],
         File ''users index''),
      ([''proj'', ''admin''], Dir),
      ([''proj'', ''admin'', ''src''], Dir),
      ([''proj'', ''extensions''], Dir),
      ([''proj'', ''extensions'', ''users''], Dir),
      ([''proj'', ''extensions'', ''users'', ''admin''], Dir),
      ([''proj'', ''extensions'', ''users'', ''admin'', ''src''], Dir),
      ([''proj'', ''.cache''], Dir),
      ([''proj'', ''.cache'', ''admin''], Dir),
      ([''proj'', ''.cache'', ''admin'', ''src''], Dir),
      ([''proj'', ''.cache'', ''admin'', ''src'', ''app.js''], File ''custom app''),
      ([''proj'', ''.cache'', ''admin'', ''src'', ''plugins.js''], File ''custom plugins''),
      ([''proj'', ''.cache'', ''admin'', ''translations''], Dir),
      ([''proj'', ''.cache'', ''plugins''], Dir),
      ([''proj'', ''.cache'', ''plugins'', ''strapi-plugin-users''], Dir),
      ([''proj'', ''.cache'', ''plugins'', ''strapi-plugin-users'', ''admin''], Dir),
      ([''proj'', ''.cache'', ''plugins'', ''strapi-plugin-users'', ''admin'', ''src''], Dir),
      ([''proj'', ''.cache'', ''plugins'', ''strapi-plugin-users'', ''admin'', ''src'',
        ''index.js''], File ''custom users index'')]"


text \<open>The same, with the base layer's \<^verbatim>\<open>app.js\<close> unreadable, and with the cached
  \<^verbatim>\<open>app.js\<close> undeletable.\<close>

definition unreadable_state :: wstate where
  "unreadable_state =
     \<lparr>disk = \<lparr>nodes = map_of watch_tree,
              denied = (\<lambda>p. p = [''proj'', ''node_modules'', ''strapi-admin'', ''admin'',
                                 ''src'', ''app.js''])\<rparr>,
      console = [], manifest_calls = []\<rparr>"

definition undeletable_state :: wstate where
  "undeletable_state =
     \<lparr>disk = \<lparr>nodes = map_of watch_tree,
              denied = (\<lambda>p. p = [''proj'', ''.cache'', ''admin'', ''src'', ''app.js''])\<rparr>,
      console = [], manifest_calls = []\<rparr>"


text \<open>A project at \<^verbatim>\<open>/home/admin/app\<close> whose override \<^verbatim>\<open>a.js\<close> has just been edited; the
  cache holds the content from before.\<close>

definition home_env :: env where
  "home_env =
     \<lparr>packages = map_of
        [(''strapi-admin'', [''home'', ''admin'', ''app'', ''node_modules'', ''strapi-admin''])],
      json_modules = map_of [([''home'', ''admin'', ''app'', ''package.json''], Some [])]\<rparr>"

definition home_tree :: "(path \<times> node) list" where
  "home_tree =
     [([], Dir),
      ([''home''], Dir),
      ([''home'', ''admin''], Dir),
      ([''home'', ''admin'', ''app''], Dir),
      ([''home'', ''admin'', ''app'', ''node_modules''], Dir),
      ([''home'', ''admin'', ''app'', ''node_modules'', ''strapi-admin''], Dir),
      ([''home'', ''admin'', ''app'', ''node_modules'', ''strapi-admin'', ''admin''], Dir),
      ([''home'', ''admin'', ''app'', ''node_modules'', ''strapi-admin'', ''admin'', ''src''], Dir),
      ([''home'', ''admin'', ''app'', ''node_modules'', ''strapi-admin'', ''admin'', ''src'',
        ''a.js''], File ''base a''),
      ([''home'', ''admin'', ''app'', ''admin''], Dir),
      ([''home'', ''admin'', ''app'', ''admin'', ''src''], Dir),
      ([''home'', ''admin'', ''app'', ''admin'', ''src'', ''a.js''], File ''edited a''),
      ([''home'', ''admin'', ''app'', ''.cache''], Dir),
      ([''home'', ''admin'', ''app'', ''.cache'', ''admin''], Dir),
      ([''home'', ''admin'', ''app'', ''.cache'', ''admin'', ''src''], Dir),
      ([''home'', ''admin'', ''app'', ''.cache'', ''admin'', ''src'', ''a.js''],
         File ''custom a'')]"

definition home_state :: wstate where
  "home_state =
     \<lparr>disk = \<lparr>nodes = map_of home_tree, denied = (\<lambda>p. False)\<rparr>,
      console = [], manifest_calls = []\<rparr>"

section \<open>Properties\<close>

subsection \<open>Sequencing\<close>

lemma bindE_Inr_iff: "bindE m f = Inr y \<longleftrightarrow> (\<exists>x. m = Inr x \<and> f x = Inr y)"
  by (cases m) (auto simp: bindE_def)


lemma bindE_Inr [simp]: "bindE (Inr x) f = f x"
  by (simp add: bindE_def)

lemma isOK_iff: "isOK r \<longleftrightarrow> (\<exists>x. r = Inr x)"
  by (cases r) (auto simp: isOK_def)

lemma filterE_Inr_iff:
  "filterE f xs = Inr ys \<longleftrightarrow>
     (\<forall>x \<in> set xs. \<exists>b. f x = Inr b) \<and> ys = filter (\<lambda>x. f x = Inr True) xs"
proof (induction xs arbitrary: ys)
  case Nil
  show ?case by auto
next
  case (Cons x xs)
  show ?case
  proof (cases "f x")
    case (Inl e)
    then show ?thesis by (auto simp: bindE_def)
  next
    case (Inr b)
    show ?thesis
    proof (cases "filterE f xs")
      case (Inl e)
      with Cons[of "[]"] Cons show ?thesis using Inr by (auto simp: bindE_def)
    next
      case r: (Inr zs)
      with Cons[of zs] Inr show ?thesis by (auto simp: bindE_def)
    qed
  qed
qed


subsection \<open>The example project materialises\<close>

lemma demo_ok: "isOK (createCacheDir demo_env demo_fs [''proj''])"
  by code_simp

subsection \<open>build\<close>

lemma first_error:
  "errs \<noteq> [] \<Longrightarrow> join_with sep (if length errs > 1 then take 1 errs else errs) = hd errs"
  by (cases errs; cases "tl errs") auto

lemma run_callback_Resolved: "run_callback r = Resolved s w \<longleftrightarrow> r = Stats s [] w"
  by (cases r) (auto simp: run_callback_def split: option.splits if_splits)

lemma run_callback_errors:
  "errs \<noteq> [] \<Longrightarrow> run_callback (Stats s errs w) = RejectedError (hd errs)"
  using first_error[of errs] by (simp add: run_callback_def)

text \<open>
  C4. Once the tree is materialised, \<^verbatim>\<open>build\<close> resolves with the statistics and the
  warnings exactly when the bundler reports no error; when it reports one or more,
  \<^verbatim>\<open>build\<close> rejects with an error whose message is the first reported error and
  nothing else.
\<close>

theorem build_outcome:
  assumes "createCacheDir e fs dir = Inr fs'"
  shows "(build e compiler fs dir = Resolved s w \<longleftrightarrow> compiler fs' = Stats s [] w)
       \<and> (\<forall>errs. errs \<noteq> [] \<and> compiler fs' = Stats s errs w \<longrightarrow>
             build e compiler fs dir = RejectedError (hd errs))"
  using assms by (auto simp: build_def run_callback_Resolved run_callback_errors)

theorem build_outcome_witness:
  "build demo_env (\<lambda>fs. Stats (0::nat) [''first'', ''second'', ''third''] [''careful''])
     demo_fs [''proj''] = RejectedError ''first''
   \<and> build demo_env (\<lambda>fs. Stats (0::nat) [] [''careful'']) demo_fs [''proj'']
       = Resolved 0 [''careful'']"
proof -
  obtain fs' where ok: "createCacheDir demo_env demo_fs [''proj''] = Inr fs'"
    using demo_ok by (auto simp: isOK_iff)
  have "build demo_env (\<lambda>fs. Stats (0::nat) [''first'', ''second'', ''third''] [''careful''])
     demo_fs [''proj''] = RejectedError ''first''"
    using build_outcome[OF ok, of "\<lambda>fs. Stats (0::nat) [''first'', ''second'', ''third''] [''careful'']" 0 "[''careful'']"]
    by simp
  moreover have "build demo_env (\<lambda>fs. Stats (0::nat) [] [''careful'']) demo_fs [''proj'']
       = Resolved 0 [''careful'']"
    using build_outcome[OF ok, of "\<lambda>fs. Stats (0::nat) [] [''careful'']" 0 "[''careful'']"]
    by simp
  ultimately show ?thesis by simp
qed

subsection \<open>The manifest\<close>

text \<open>
  C5. The text that \<^verbatim>\<open>createPluginsJs\<close> writes is decided by the list of plugins alone:
  two calls with the same list, whatever the destinations and the disks, leave the
  same text in the manifest file.
\<close>

theorem manifest_deterministic:
  assumes "createPluginsJs plugins dest1 fs1 = Inr fs1'"
    and "createPluginsJs plugins dest2 fs2 = Inr fs2'"
  shows "nodes fs1' (path_join dest1 [''admin'', ''src'', ''plugins.js'']) =
           Some (File (plugins_js_content plugins))
       \<and> nodes fs2' (path_join dest2 [''admin'', ''src'', ''plugins.js'']) =
           nodes fs1' (path_join dest1 [''admin'', ''src'', ''plugins.js''])"
  using assms by (auto simp: createPluginsJs_def writeFile_def split: if_splits)

lemma src_only_manifest:
  "isOK (createPluginsJs plugins dest (src_only dest))"
proof -
  have "path_join dest [''admin'', ''src'', ''plugins.js''] = dest @ [''admin'', ''src'', ''plugins.js'']"
    by (simp add: path_join_def js_split_def path_step_def startsWith_def)
  then show ?thesis
    by (simp add: createPluginsJs_def writeFile_def src_only_def is_dir_def isOK_def butlast_append)
qed

theorem manifest_deterministic_witness:
  "\<exists>fs1' fs2'.
     createPluginsJs [''strapi-plugin-users''] [''a''] (src_only [''a'']) = Inr fs1' \<and>
     createPluginsJs [''strapi-plugin-users''] [''b'', ''c''] (src_only [''b'', ''c'']) = Inr fs2' \<and>
     nodes fs2' (path_join [''b'', ''c''] [''admin'', ''src'', ''plugins.js'']) =
       nodes fs1' (path_join [''a''] [''admin'', ''src'', ''plugins.js''])"
proof -
  obtain fs1' where 1: "createPluginsJs [''strapi-plugin-users''] [''a''] (src_only [''a'']) = Inr fs1'"
    using src_only_manifest[of "[''strapi-plugin-users'']" "[''a'']"] by (auto simp: isOK_iff)
  obtain fs2' where 2: "createPluginsJs [''strapi-plugin-users''] [''b'', ''c''] (src_only [''b'', ''c'']) = Inr fs2'"
    using src_only_manifest[of "[''strapi-plugin-users'']" "[''b'', ''c'']"] by (auto simp: isOK_iff)
  from manifest_deterministic[OF 1 2] 1 2 show ?thesis by blast
qed








subsection \<open>Finding the plugins\<close>


lemma hasAdminEntry_total:
  "(\<exists>b. hasAdminEntry e fs d = Inr b) \<longleftrightarrow>
     (startsWith d ''strapi-plugin'' \<longrightarrow> packages e d \<noteq> None)"
  by (auto simp: hasAdminEntry_def getPkgPath_def bindE_def split: option.splits)

lemma hasAdminEntry_True:
  "hasAdminEntry e fs d = Inr True \<longleftrightarrow>
     startsWith d ''strapi-plugin'' \<and>
     (\<exists>root. packages e d = Some root \<and>
        pathExistsSync fs (path_join root [''admin'', ''src'', ''index.js'']))"
  by (auto simp: hasAdminEntry_def getPkgPath_def bindE_def split: option.splits)




lemma demo_deps:
  "dependency_keys demo_env (path_join [''proj''] [''package.json'']) =
     Inr [''strapi'', ''strapi-plugin-email'', ''strapi-plugin-users'']"
  by code_simp




subsection \<open>Scanning path strings\<close>

lemma startsWith_prefix: "startsWith s p \<longleftrightarrow> prefix p s"
proof
  assume "startsWith s p"
  then have "take (length p) s = p" by (simp add: startsWith_def)
  then show "prefix p s" by (metis take_is_prefix)
next
  assume "prefix p s"
  then obtain r where "s = p @ r" by (auto simp: prefix_def)
  then show "startsWith s p" by (simp add: startsWith_def)
qed

lemma startsWith_Nil [simp]: "startsWith s [] = True"
  by (simp add: startsWith_def)

lemma startsWith_Nil_Cons [simp]: "startsWith [] (d # p) = False"
  by (simp add: startsWith_def)

lemma startsWith_Cons [simp]: "startsWith (c # s) (d # p) = (c = d \<and> startsWith s p)"
  by (simp add: startsWith_def)

lemma startsWith_append [simp]: "startsWith (p @ s) p"
  by (simp add: startsWith_def)

lemma startsWith_same_append [simp]: "startsWith (p @ s) (p @ q) = startsWith s q"
  by (simp add: startsWith_prefix)


lemma render_append [simp]: "render (p @ q) = render p @ render q"
  by (induction p) simp_all

lemma render_head: "prefix (x # xs) (render p) \<Longrightarrow> x = CHR ''/''"
  by (cases p) simp_all


lemma no_start_exact:
  assumes "CHR ''/'' \<notin> set v" and "CHR ''/'' \<notin> set s" and "s \<noteq> v"
  shows "\<not> startsWith (s @ render p) (v @ CHR ''/'' # u)"
proof
  assume "startsWith (s @ render p) (v @ CHR ''/'' # u)"
  then have "prefix ((v @ [CHR ''/'']) @ u) (s @ render p)" by (simp add: startsWith_prefix)
  then have "prefix (v @ [CHR ''/'']) (s @ render p)" by (rule append_prefixD)
  then consider "prefix (v @ [CHR ''/'']) s"
    | us where "v @ [CHR ''/''] = s @ us" "prefix us (render p)"
    by (auto simp: prefix_append)
  then show False
  proof cases
    case 1
    then obtain r where "s = (v @ [CHR ''/'']) @ r" by (auto simp: prefix_def)
    with assms(2) show ?thesis by simp
  next
    case 2
    show ?thesis
    proof (cases us rule: rev_cases)
      case Nil
      with 2(1) assms(2) show ?thesis by (metis append_Nil2 in_set_conv_decomp)
    next
      case (snoc ys y)
      with 2(1) have v: "v = s @ ys" and "y = CHR ''/''" by simp_all
      show ?thesis
      proof (cases ys)
        case Nil
        with v assms(3) show ?thesis by simp
      next
        case (Cons x xs)
        with 2(2) snoc have "prefix (x # xs @ [y]) (render p)" by simp
        then have "x = CHR ''/''" using render_head by blast
        with v Cons assms(1) show ?thesis by simp
      qed
    qed
  qed
qed

lemma split_seg:
  "CHR ''/'' \<notin> set s \<Longrightarrow>
   split_from (CHR ''/'' # w) acc (s @ t) = split_from (CHR ''/'' # w) (acc @ s) t"
  by (induction s arbitrary: acc) auto

lemma after_seg:
  "CHR ''/'' \<notin> set s \<Longrightarrow> after_first (CHR ''/'' # w) (s @ t) = after_first (CHR ''/'' # w) t"
  by (induction s) auto



lemma after_none_exact:
  assumes "CHR ''/'' \<notin> set v"
    and "\<forall>s \<in> set p. CHR ''/'' \<notin> set s \<and> s \<noteq> v"
  shows "after_first (CHR ''/'' # v @ CHR ''/'' # u) (render p) = None"
  using assms(2)
proof (induction p)
  case Nil
  show ?case by simp
next
  case (Cons s p)
  then have s: "CHR ''/'' \<notin> set s" "s \<noteq> v" by simp_all
  have "\<not> startsWith (s @ render p) (v @ CHR ''/'' # u)"
    by (rule no_start_exact[OF assms(1) s])
  then have "after_first (CHR ''/'' # v @ CHR ''/'' # u) (render (s # p)) =
             after_first (CHR ''/'' # v @ CHR ''/'' # u) (s @ render p)"
    by simp
  also have "\<dots> = after_first (CHR ''/'' # v @ CHR ''/'' # u) (render p)"
    by (rule after_seg[OF s(1)])
  finally show ?case using Cons by simp
qed



lemma after_at:
  assumes "CHR ''/'' \<notin> set v"
    and "\<forall>s \<in> set dir. CHR ''/'' \<notin> set s \<and> s \<noteq> v"
  shows "after_first (CHR ''/'' # v @ [CHR ''/'']) (render (dir @ v # n # rest)) =
           Some (n @ render rest)"
  using assms(2)
proof (induction dir)
  case Nil
  show ?case by simp
next
  case (Cons s dir)
  then have s: "CHR ''/'' \<notin> set s" "s \<noteq> v" by simp_all
  have "\<not> startsWith (s @ render (dir @ v # n # rest)) (v @ CHR ''/'' # [])"
    by (rule no_start_exact[OF assms(1) s])
  then have "after_first (CHR ''/'' # v @ [CHR ''/'']) (render ((s # dir) @ v # n # rest)) =
             after_first (CHR ''/'' # v @ [CHR ''/'']) (s @ render (dir @ v # n # rest))"
    by simp
  also have "\<dots> = after_first (CHR ''/'' # v @ [CHR ''/'']) (render (dir @ v # n # rest))"
    by (rule after_seg[OF s(1)])
  finally show ?case using Cons by simp
qed



lemma takeWhile_seg:
  "CHR ''/'' \<notin> set n \<Longrightarrow> takeWhile (\<lambda>c. c \<noteq> CHR ''/'') (n @ render (s # p)) = n"
  by (induction n) auto


lemma split_from_not_Nil: "split_from sep acc s \<noteq> []"
  by (induction sep acc s rule: split_from.induct) auto

lemma split_from_two:
  "after_first sep s = Some r \<Longrightarrow> sep \<noteq> [] \<Longrightarrow> length (split_from sep acc s) \<ge> 2"
proof (induction sep acc s rule: split_from.induct)
  case (1 sep acc)
  then show ?case by simp
next
  case (2 sep acc c cs)
  show ?case
  proof (cases "startsWith (c # cs) sep")
    case True
    have "split_from sep [] (drop (length sep) (c # cs)) \<noteq> []"
      by (rule split_from_not_Nil)
    then have "length (split_from sep [] (drop (length sep) (c # cs))) \<ge> 1"
      by (cases "split_from sep [] (drop (length sep) (c # cs))") auto
    with True 2(4) show ?thesis by simp
  next
    case False
    with 2 show ?thesis by simp
  qed
qed


lemma split_slash_plain:
  "CHR ''/'' \<notin> set s \<Longrightarrow> split_from ''/'' acc s = [acc @ s]"
  using split_seg[of s "[]" acc "[]"] by simp

lemma split_slash_render:
  "\<forall>s \<in> set p. CHR ''/'' \<notin> set s \<Longrightarrow> split_from ''/'' acc (render p) = acc # p"
proof (induction p arbitrary: acc)
  case Nil
  show ?case by simp
next
  case (Cons s p)
  then have s: "CHR ''/'' \<notin> set s" by simp
  have "split_from ''/'' acc (render (s # p)) = acc # split_from ''/'' [] (s @ render p)"
    by simp
  also have "split_from ''/'' [] (s @ render p) = split_from ''/'' ([] @ s) (render p)"
    by (rule split_seg[OF s])
  finally show ?case using Cons by simp
qed

lemma foldl_path_step_plain:
  "\<forall>s \<in> set p. plain_segment s \<Longrightarrow> foldl path_step base p = base @ p"
  by (induction p arbitrary: base) (auto simp: path_step_def plain_segment_def)

lemma path_join_Nil [simp]: "path_join base [] = base"
  by (simp add: path_join_def)

lemma path_join_empty [simp]: "path_join base ([] # args) = path_join base args"
  by (simp add: path_join_def js_split_def path_step_def)

lemma path_join_plain:
  "plain_segment s \<Longrightarrow> path_join base (s # args) = path_join (base @ [s]) args"
  by (simp add: path_join_def js_split_def split_slash_plain path_step_def plain_segment_def)

lemma path_join_render:
  assumes "\<forall>s \<in> set p. plain_segment s"
  shows "path_join base (render p # args) = path_join (base @ p) args"
proof -
  from assms have "\<forall>s \<in> set p. CHR ''/'' \<notin> set s" by (simp add: plain_segment_def)
  then have "js_split (render p) ''/'' = [] # p"
    by (simp add: js_split_def split_slash_render)
  then show ?thesis
    using foldl_path_step_plain[OF assms]
    by (simp add: path_join_def path_step_def)
qed

lemma parse_path_render:
  "\<forall>s \<in> set p. plain_segment s \<Longrightarrow> parse_path (render p) = p"
  using path_join_render[of p "[]" "[]"] by (simp add: parse_path_def)

subsection \<open>What the handler computes from an override path\<close>

lemma js_index_1 [simp]: "js_index [a, b] (Suc 0) = Some b"
  by (simp add: js_index_def)

lemma path_join_cache [simp]: "path_join dir [''.cache''] = dir @ [''.cache'']"
  by (simp add: path_join_plain plain_segment_def)

lemma project_not_extension:
  assumes "override_free dir" "override_free rel"
  shows "match_extension (render (dir @ ''admin'' # rel)) = None"
proof -
  have "\<forall>s \<in> set (dir @ ''admin'' # rel). CHR ''/'' \<notin> set s \<and> s \<noteq> ''extensions''"
    using assms by (auto simp: override_free_def plain_segment_def)
  then have "after_first (CHR ''/'' # ''extensions'' @ CHR ''/'' # []) (render (dir @ ''admin'' # rel)) = None"
    by (intro after_none_exact) simp_all
  then show ?thesis by (simp add: match_extension_def)
qed






lemma extension_match:
  assumes "extension_free dir" "plain_segment name"
  shows "match_extension (render (dir @ [''extensions'', name, ''admin''] @ rel)) = Some name"
proof -
  have d: "\<forall>s \<in> set dir. CHR ''/'' \<notin> set s \<and> s \<noteq> ''extensions''"
    using assms by (auto simp: extension_free_def plain_segment_def)
  have n: "CHR ''/'' \<notin> set name" using assms(2) by (simp add: plain_segment_def)
  have "after_first (CHR ''/'' # ''extensions'' @ [CHR ''/''])
          (render (dir @ ''extensions'' # name # (''admin'' # rel))) =
        Some (name @ render (''admin'' # rel))"
    by (rule after_at[OF _ d]) simp
  then show ?thesis
    using takeWhile_seg[OF n, of "''admin''" rel]
    by (simp add: match_extension_def)
qed






lemma override_path_extension:
  assumes "override_path e dir filePath dest lower"
  shows "isExtension filePath \<longleftrightarrow> \<not> prefix (dir @ [''.cache'', ''admin'']) dest"
  using assms
proof cases
  case (project rel root)
  then show ?thesis using project_not_extension by (simp add: isExtension_def)
next
  case (extension name rel root)
  then show ?thesis using extension_match by (simp add: isExtension_def)
qed

subsection \<open>File operations, pointwise\<close>

lemma removeSync_Inr:
  "removeSync fs p = Inr fs' \<Longrightarrow>
   nodes fs' = (\<lambda>q. if prefix p q then None else nodes fs q) \<and> denied fs' = denied fs"
  by (auto simp: removeSync_def split: if_splits)


lemma copy_Inr:
  "copy fs src dest = Inr fs' \<Longrightarrow>
   nodes fs' = overlay (nodes fs) src dest \<and> denied fs' = denied fs"
  by (auto simp: copy_def split: if_splits)


lemma manifest_path [simp]:
  "path_join cacheDir [''admin'', ''src'', ''plugins.js''] = cacheDir @ [''admin'', ''src'', ''plugins.js'']"
  by (simp add: path_join_plain plain_segment_def)

subsection \<open>The handler does not reject\<close>

lemma targetPath_defined:
  assumes "isExtension filePath \<or> js_includes filePath ''/admin''"
  shows "\<exists>t. targetPath filePath = Inr (Some t)"
proof (cases "isExtension filePath")
  case True
  then obtain r where "after_first ''/extensions/'' filePath = Some r"
    by (auto simp: isExtension_def match_extension_def split: option.splits)
  then have "length (split_from ''/extensions/'' [] filePath) \<ge> 2"
    by (rule split_from_two) simp
  then show ?thesis using True by (simp add: targetPath_def js_split_def js_index_def)
next
  case False
  with assms obtain r where "after_first ''/admin'' filePath = Some r"
    by (auto simp: js_includes_def)
  then have "length (split_from ''/admin'' [] filePath) \<ge> 2"
    by (rule split_from_two) simp
  then show ?thesis using False by (simp add: targetPath_def js_split_def js_index_def)
qed

lemma restore_console: "console (restore ps cacheDir ev filePath lower dest st) = console st"
  by (simp add: restore_def split: sum.splits)

lemma remove_step_console:
  "console (remove_step st dest) =
     console st @ (case removeSync (disk st) dest of Inl err \<Rightarrow> [DeleteFailed err] | Inr fs1 \<Rightarrow> [])"
  by (simp add: remove_step_def split: sum.splits)

lemma on_change_console:
  "console (on_change cacheDir filePath target st) =
     console st @ (case bindE (destination cacheDir filePath target)
                          (copy (disk st) (parse_path filePath)) of
                     Inl err \<Rightarrow> [CopyFailed err] | Inr fs1 \<Rightarrow> [])"
  by (simp add: on_change_def split: sum.splits)

lemma on_all_contained:
  assumes "resolvable e ev filePath"
  shows "\<exists>st' target. on_all e dir ps ev filePath st = Inr st' \<and>
           targetPath filePath = Inr target \<and>
           console st' = console st @ expected_log (path_join dir [''.cache'']) ev filePath target st"
proof (cases "ev = Unlink \<or> ev = UnlinkDir")
  case True
  with assms obtain root where root: "packages e (packageName filePath) = Some root"
    and "isExtension filePath \<or> js_includes filePath ''/admin''"
    by (auto simp: resolvable_def)
  then obtain t where t: "targetPath filePath = Inr (Some t)"
    using targetPath_defined by blast
  obtain lower where lower: "originalFilePathInNodeModules e filePath (Some t) = Inr lower"
    using root by (simp add: originalFilePathInNodeModules_def getPkgPath_def join_target_def)
  obtain dest where dest: "destination (dir @ [''.cache'']) filePath (Some t) = Inr dest"
    by (simp add: destination_def join_target_def)
  let ?st1 = "remove_step st dest"
  let ?st' = "if pathExistsSync (disk ?st1) lower
              then restore ps (dir @ [''.cache'']) ev filePath lower dest ?st1 else ?st1"
  have "on_all e dir ps ev filePath st = Inr ?st'"
    using True t lower dest by (simp add: on_all_def on_unlink_def Let_def)
  moreover have "console ?st' =
      console st @ expected_log (path_join dir [''.cache'']) ev filePath (Some t) st"
    using True dest by (simp add: restore_console remove_step_console expected_log_def)
  ultimately show ?thesis using t by blast
next
  case False
  show ?thesis
  proof (cases "targetPath filePath")
    case (Inl err)
    then obtain r where "isExtension filePath"
      by (auto simp: targetPath_def split: if_splits)
    then have "\<exists>t. targetPath filePath = Inr (Some t)"
      using targetPath_defined by blast
    with Inl show ?thesis by simp
  next
    case (Inr target)
    then show ?thesis
      using False by (simp add: on_all_def Let_def on_change_console expected_log_def)
  qed
qed

lemma run_events_contained:
  "\<forall>(ev, filePath) \<in> set events. resolvable e ev filePath \<Longrightarrow>
   isOK (run_events e dir ps events st)"
proof (induction events arbitrary: st)
  case Nil
  show ?case by (simp add: run_events_def isOK_def)
next
  case (Cons x events)
  obtain ev filePath where x: "x = (ev, filePath)" by (cases x)
  with Cons.prems have "resolvable e ev filePath" by simp
  then obtain st' where "on_all e dir ps ev filePath st = Inr st'"
    using on_all_contained by blast
  moreover have "isOK (run_events e dir ps events st')"
    using Cons by simp
  ultimately show ?case using x by (simp add: run_events_def)
qed

text \<open>
  C10, amended. When the package that a deleted path names is installed and the path
  holds the text at which the handler cuts it, no event makes the handler reject,
  whatever file operation fails, and the events that follow are processed: a whole
  run of such events ends normally. Each handler runs its steps once. It prints the
  failure of the removal and the failure of the copy of a created or changed path,
  and prints nothing else: a failure of the restoring copy or of the regeneration
  is caught and dropped.
\<close>

theorem watcher_contains_failures:
  assumes "\<forall>(ev, filePath) \<in> set events. resolvable e ev filePath"
  shows "isOK (run_events e dir ps events st)
       \<and> (\<forall>(ev, filePath) \<in> set events. \<forall>st0. \<exists>st1 target.
            on_all e dir ps ev filePath st0 = Inr st1 \<and>
            targetPath filePath = Inr target \<and>
            console st1 =
              console st0 @ expected_log (path_join dir [''.cache'']) ev filePath target st0)"
proof
  show "isOK (run_events e dir ps events st)"
    using assms by (rule run_events_contained)
next
  show "\<forall>(ev, filePath) \<in> set events. \<forall>st0. \<exists>st1 target.
            on_all e dir ps ev filePath st0 = Inr st1 \<and>
            targetPath filePath = Inr target \<and>
            console st1 =
              console st0 @ expected_log (path_join dir [''.cache'']) ev filePath target st0"
    using assms on_all_contained by fastforce
qed

subsection \<open>Regenerating the manifest\<close>


lemma remove_step_calls [simp]: "manifest_calls (remove_step st dest) = manifest_calls st"
  by (simp add: remove_step_def split: sum.splits)

lemma on_change_calls [simp]:
  "manifest_calls (on_change cacheDir filePath target st) = manifest_calls st"
  by (simp add: on_change_def split: sum.splits)













subsection \<open>Deleting an override\<close>



lemma overlay_at:
  "overlay ns src dest (dest @ r) =
     (case ns (src @ r) of Some n \<Rightarrow> Some n | None \<Rightarrow> mkdirs ns (butlast dest) (dest @ r))"
  by (simp add: overlay_def)

lemma not_prefix_butlast: "dest \<noteq> [] \<Longrightarrow> \<not> prefix (dest @ r) (butlast dest)"
proof
  assume "dest \<noteq> []" and "prefix (dest @ r) (butlast dest)"
  then have "length (dest @ r) \<le> length (butlast dest)" by (rule_tac prefix_length_le)
  with \<open>dest \<noteq> []\<close> show False by (cases dest rule: rev_cases) auto
qed

lemma not_prefix_append:
  "\<not> prefix a b \<Longrightarrow> \<not> prefix b a \<Longrightarrow> \<not> prefix a (b @ r)"
  by (auto simp: prefix_def append_eq_append_conv2)


subsection \<open>The watcher on the example projects\<close>











text \<open>
  C10, as the claim has it: every failure of a step is caught and printed. Where the
  base layer's file cannot be read, the restoring copy fails, nothing is printed, and
  the destination stays absent.
\<close>

theorem silent_restore_counterexample:
  "isOK (on_all demo_env [''proj''] [''strapi-plugin-users''] Unlink ''/proj/admin/src/app.js''
           unreadable_state)
   \<and> error_of
        (copy (disk (remove_step unreadable_state
                       [''proj'', ''.cache'', ''admin'', ''src'', ''app.js'']))
           [''proj'', ''node_modules'', ''strapi-admin'', ''admin'', ''src'', ''app.js'']
           [''proj'', ''.cache'', ''admin'', ''src'', ''app.js'']) =
       Some (EACCES [''proj'', ''node_modules'', ''strapi-admin'', ''admin'', ''src'', ''app.js''])
   \<and> console_after
        (on_all demo_env [''proj''] [''strapi-plugin-users''] Unlink ''/proj/admin/src/app.js''
           unreadable_state) = []
   \<and> disk_after
        (on_all demo_env [''proj''] [''strapi-plugin-users''] Unlink ''/proj/admin/src/app.js''
           unreadable_state)
        [''proj'', ''.cache'', ''admin'', ''src'', ''app.js''] = None"
  by code_simp

lemma undeletable_events:
  "\<forall>(ev, filePath) \<in> set [(Unlink, ''/proj/admin/src/app.js''), (Change, ''/proj/admin/src/app.js'')].
     resolvable demo_env ev filePath"
  by code_simp

lemma undeletable_console:
  "console_after
     (run_events demo_env [''proj''] [''strapi-plugin-users'']
        [(Unlink, ''/proj/admin/src/app.js''), (Change, ''/proj/admin/src/app.js'')]
        undeletable_state) =
   [DeleteFailed (EACCES [''proj'', ''.cache'', ''admin'', ''src'', ''app.js'']),
    CopyFailed (EACCES [''proj'', ''.cache'', ''admin'', ''src'', ''app.js''])]"
  by code_simp

theorem watcher_contains_failures_witness:
  "isOK (run_events demo_env [''proj''] [''strapi-plugin-users'']
           [(Unlink, ''/proj/admin/src/app.js''), (Change, ''/proj/admin/src/app.js'')]
           undeletable_state)
   \<and> console_after
        (run_events demo_env [''proj''] [''strapi-plugin-users'']
           [(Unlink, ''/proj/admin/src/app.js''), (Change, ''/proj/admin/src/app.js'')]
           undeletable_state) =
       [DeleteFailed (EACCES [''proj'', ''.cache'', ''admin'', ''src'', ''app.js'']),
        CopyFailed (EACCES [''proj'', ''.cache'', ''admin'', ''src'', ''app.js''])]"
  using watcher_contains_failures[OF undeletable_events, of "[''proj'']"
      "[''strapi-plugin-users'']" undeletable_state] undeletable_console
  by blast

text \<open>
  C9 at a project whose root is \<^verbatim>\<open>/home/admin/app\<close>: the path of a changed override is
  cut at the first \<^verbatim>\<open>/admin\<close>, which is in the root, so the new content goes to
  \<^verbatim>\<open>.cache/admin/app\<close> and the destination \<^verbatim>\<open>.cache/admin/src/a.js\<close> keeps the content
  from before; nothing is printed.
\<close>

theorem change_lands_elsewhere:
  "prefix (hd (filesToWatch [''home'', ''admin'', ''app''] []))
     (parse_path ''/home/admin/app/admin/src/a.js'')
   \<and> nodes (disk home_state) (parse_path ''/home/admin/app/admin/src/a.js'') =
       Some (File ''edited a'')
   \<and> disk_after
        (on_all home_env [''home'', ''admin'', ''app''] [] Change
           ''/home/admin/app/admin/src/a.js'' home_state)
        [''home'', ''admin'', ''app'', ''.cache'', ''admin'', ''src'', ''a.js''] =
       Some (File ''custom a'')
   \<and> disk_after
        (on_all home_env [''home'', ''admin'', ''app''] [] Change
           ''/home/admin/app/admin/src/a.js'' home_state)
        [''home'', ''admin'', ''app'', ''.cache'', ''admin'', ''app''] =
       Some (File ''edited a'')
   \<and> console_after
        (on_all home_env [''home'', ''admin'', ''app''] [] Change
           ''/home/admin/app/admin/src/a.js'' home_state) = []"
  by code_simp

subsection \<open>What a file operation leaves alone\<close>

lemma emptyDir_Inr:
  "emptyDir f p = Inr f' \<Longrightarrow>
   nodes f' = (\<lambda>q. if strict_prefix p q then None else mkdirs (nodes f) p q) \<and>
   denied f' = denied f \<and> \<not> denied f p \<and> \<not> file_on_way f p"
  by (auto simp: emptyDir_def split: if_splits)

lemma ensureDir_Inr:
  "ensureDir f p = Inr f' \<Longrightarrow> nodes f' = mkdirs (nodes f) p \<and> denied f' = denied f"
  by (auto simp: ensureDir_def split: if_splits)

lemma writeFile_Inr:
  "writeFile f p c = Inr f' \<Longrightarrow> nodes f' = (nodes f)(p := Some (File c)) \<and> denied f' = denied f"
  by (auto simp: writeFile_def split: if_splits)

lemma mkdirs_Some: "ns q \<noteq> None \<Longrightarrow> mkdirs ns p q = ns q"
  by (auto simp: mkdirs_def)

lemma mkdirs_apart: "\<not> prefix q p \<Longrightarrow> mkdirs ns p q = ns q"
  by (auto simp: mkdirs_def split: option.splits)

lemma mkdirs_prefix: "prefix q p \<Longrightarrow> mkdirs ns p q \<noteq> None"
  by (auto simp: mkdirs_def split: option.splits)

lemma mkdirs_idem: "mkdirs (mkdirs ns p) p = mkdirs ns p"
  by (auto simp: mkdirs_def fun_eq_iff split: option.splits)

lemma prefix_butlast: "prefix q (butlast d) \<Longrightarrow> prefix q d"
  by (rule prefix_order.trans[OF _ prefixeq_butlast])

lemma overlay_apart:
  assumes "\<not> prefix d q" and "\<not> prefix q d"
  shows "overlay ns s d q = ns q"
proof -
  from assms(2) have "\<not> prefix q (butlast d)" using prefix_butlast by blast
  then show ?thesis using assms(1) by (simp add: overlay_def mkdirs_apart)
qed

lemma overlay_Some: "\<not> prefix d q \<Longrightarrow> ns q \<noteq> None \<Longrightarrow> overlay ns s d q = ns q"
  by (simp add: overlay_def mkdirs_Some)

lemma overlay_under:
  "d \<noteq> [] \<Longrightarrow>
   overlay ns s d (d @ r) = (case ns (s @ r) of Some n \<Rightarrow> Some n | None \<Rightarrow> ns (d @ r))"
  using not_prefix_butlast[of d r] by (cases "ns (s @ r)") (simp_all add: overlay_at mkdirs_apart)

lemma below_cases:
  assumes "strict_prefix c d" and "\<not> strict_prefix c q"
  shows "\<not> prefix d q \<and> (prefix q c \<or> \<not> prefix q d)"
proof -
  from assms(1) have cd: "prefix c d" "c \<noteq> d" by (simp_all add: strict_prefix_def)
  have 1: "\<not> prefix d q"
  proof
    assume dq: "prefix d q"
    with cd(1) have cq: "prefix c q" by (rule prefix_order.trans)
    have "c \<noteq> q"
    proof
      assume "c = q"
      with dq cd(1) have "c = d" by (simp add: prefix_order.antisym)
      with cd(2) show False by simp
    qed
    with cq have "strict_prefix c q" by (simp add: strict_prefix_def)
    with assms(2) show False by simp
  qed
  have 2: "prefix q c \<or> \<not> prefix q d"
  proof (rule ccontr)
    assume "\<not> (prefix q c \<or> \<not> prefix q d)"
    then have q: "\<not> prefix q c" "prefix q d" by auto
    from q(2) cd(1) have "prefix q c \<or> prefix c q" by (rule prefix_same_cases)
    with q(1) have "prefix c q" by simp
    with q(1) have "strict_prefix c q" by (auto simp: strict_prefix_def)
    with assms(2) show False by simp
  qed
  from 1 2 show ?thesis by simp
qed

lemma keeps_refl: "keeps c f f"
  by (simp add: keeps_def)

lemma keeps_trans: "keeps c f g \<Longrightarrow> keeps c g h \<Longrightarrow> keeps c f h"
  by (simp add: keeps_def)

lemma above_not_below: "prefix q c \<Longrightarrow> \<not> strict_prefix c q"
  by (auto simp: strict_prefix_def dest: prefix_order.antisym)

lemma keeps_rooted: "keeps c f g \<Longrightarrow> rooted c f \<Longrightarrow> rooted c g"
  by (simp add: keeps_def rooted_def above_not_below)

lemma copy_keeps:
  assumes "copy f s d = Inr f'" and "strict_prefix c d" and "rooted c f"
  shows "keeps c f f'"
proof -
  have "nodes f' q = nodes f q" if q: "\<not> strict_prefix c q" for q
  proof -
    from below_cases[OF assms(2) q] have 1: "\<not> prefix d q" and 2: "prefix q c \<or> \<not> prefix q d"
      by simp_all
    from 2 show ?thesis
    proof
      assume "prefix q c"
      with assms(3) have "nodes f q \<noteq> None" by (simp add: rooted_def)
      with 1 show ?thesis using copy_Inr[OF assms(1)] by (simp add: overlay_Some)
    next
      assume "\<not> prefix q d"
      with 1 show ?thesis using copy_Inr[OF assms(1)] by (simp add: overlay_apart)
    qed
  qed
  then show ?thesis using copy_Inr[OF assms(1)] by (simp add: keeps_def)
qed

lemma ensureDir_keeps:
  assumes "ensureDir f d = Inr f'" and "strict_prefix c d" and "rooted c f"
  shows "keeps c f f'"
proof -
  have "nodes f' q = nodes f q" if q: "\<not> strict_prefix c q" for q
  proof -
    from below_cases[OF assms(2) q] have "prefix q c \<or> \<not> prefix q d" by simp
    then show ?thesis
    proof
      assume "prefix q c"
      with assms(3) have "nodes f q \<noteq> None" by (simp add: rooted_def)
      then show ?thesis using ensureDir_Inr[OF assms(1)] by (simp add: mkdirs_Some)
    next
      assume "\<not> prefix q d"
      then show ?thesis using ensureDir_Inr[OF assms(1)] by (simp add: mkdirs_apart)
    qed
  qed
  then show ?thesis using ensureDir_Inr[OF assms(1)] by (simp add: keeps_def)
qed

lemma writeFile_keeps:
  assumes "writeFile f d content = Inr f'" and "strict_prefix c d"
  shows "keeps c f f'"
  using writeFile_Inr[OF assms(1)] assms(2) by (auto simp: keeps_def)

lemma strict_below [simp]: "strict_prefix c (c @ x # xs)"
  by (simp add: strict_prefix_def)

subsection \<open>Building the cache writes below the cache directory only\<close>

lemma plugin_name_plain:
  "startsWith n ''strapi-plugin'' \<Longrightarrow> CHR ''/'' \<notin> set n \<Longrightarrow> plain_segment n"
  by (auto simp: plain_segment_def startsWith_def)

lemma shortName_set: "set (shortName n) \<subseteq> set n"
  by (auto simp: shortName_def dest: in_set_dropD)

lemma extension_name_plain:
  "CHR ''/'' \<notin> set n \<Longrightarrow> plain_segment (''strapi-plugin-'' @ shortName n)"
  using shortName_set[of n] by (auto simp: plain_segment_def)

lemma copyAdmin_keeps:
  assumes "copyAdmin e c f = Inr f'" and "rooted c f"
  shows "keeps c f f'"
proof -
  from assms(1) obtain root f1 f2 where
    1: "ensureDir f (c @ [''config'']) = Inr f1" and
    2: "copy f1 (root @ [''admin'']) (c @ [''admin'']) = Inr f2" and
    3: "copy f2 (root @ [''config'', ''layout.js'']) (c @ [''config'', ''layout.js'']) = Inr f'"
    by (auto simp: copyAdmin_def bindE_Inr_iff path_join_plain plain_segment_def)
  have r1: "rooted c f1" and k1: "keeps c f f1"
  proof -
    show "keeps c f f1" by (rule ensureDir_keeps[OF 1 _ assms(2)]) simp
    then show "rooted c f1" using assms(2) by (rule keeps_rooted)
  qed
  have r2: "rooted c f2" and k2: "keeps c f1 f2"
  proof -
    show "keeps c f1 f2" by (rule copy_keeps[OF 2 _ r1]) simp
    then show "rooted c f2" using r1 by (rule keeps_rooted)
  qed
  have k3: "keeps c f2 f'" by (rule copy_keeps[OF 3 _ r2]) simp
  from k1 k2 k3 show ?thesis by (blast intro: keeps_trans)
qed

lemma copyPlugin_keeps:
  assumes "copyPlugin e c n f = Inr f'" and "rooted c f" and "plain_segment n"
  shows "keeps c f f'"
proof -
  have pj: "path_join c [''plugins'', n, ''admin''] = c @ [''plugins'', n, ''admin'']"
    "path_join c [''plugins'', n, ''config''] = c @ [''plugins'', n, ''config'']"
    "path_join c [''plugins'', n, ''config'', ''layout.js''] =
       c @ [''plugins'', n, ''config'', ''layout.js'']"
    "path_join c [''plugins'', n, ''package.json''] = c @ [''plugins'', n, ''package.json'']"
    using assms(3) by (simp_all add: path_join_plain plain_segment_def)
  from assms(1) obtain root f1 f3 where
    1: "copy f (path_join root [''admin'']) (c @ [''plugins'', n, ''admin'']) = Inr f1" and
    2: "(if pathExistsSync f1 (path_join root [''config'', ''layout.js''])
         then bindE (ensureDir f1 (c @ [''plugins'', n, ''config''])) (\<lambda>fs2.
                copy fs2 (path_join root [''config'', ''layout.js''])
                  (c @ [''plugins'', n, ''config'', ''layout.js'']))
         else Inr f1) = Inr f3" and
    3: "copy f3 (path_join root [''package.json'']) (c @ [''plugins'', n, ''package.json'']) = Inr f'"
    unfolding copyPlugin_def bindE_Inr_iff pj by blast
  have r1: "rooted c f1" and k1: "keeps c f f1"
  proof -
    show "keeps c f f1" by (rule copy_keeps[OF 1 _ assms(2)]) simp
    then show "rooted c f1" using assms(2) by (rule keeps_rooted)
  qed
  have k2: "keeps c f1 f3"
  proof (cases "pathExistsSync f1 (path_join root [''config'', ''layout.js''])")
    case False
    with 2 show ?thesis by (simp add: keeps_refl)
  next
    case True
    with 2 obtain f2 where
      a: "ensureDir f1 (c @ [''plugins'', n, ''config'']) = Inr f2" and
      b: "copy f2 (path_join root [''config'', ''layout.js''])
            (c @ [''plugins'', n, ''config'', ''layout.js'']) = Inr f3"
      by (auto simp: bindE_Inr_iff)
    have ka: "keeps c f1 f2" by (rule ensureDir_keeps[OF a _ r1]) simp
    then have ra: "rooted c f2" using r1 by (rule keeps_rooted)
    have kb: "keeps c f2 f3" by (rule copy_keeps[OF b _ ra]) simp
    from ka kb show ?thesis by (rule keeps_trans)
  qed
  then have r3: "rooted c f3" using r1 by (rule keeps_rooted)
  have k3: "keeps c f3 f'" by (rule copy_keeps[OF 3 _ r3]) simp
  from k1 k2 k3 show ?thesis by (blast intro: keeps_trans)
qed

lemma foldE_keeps:
  assumes "\<forall>x \<in> set xs. \<forall>f f'. step x f = Inr f' \<longrightarrow> rooted c f \<longrightarrow> keeps c f f'"
    and "foldE step xs f = Inr f'" and "rooted c f"
  shows "keeps c f f'"
  using assms
proof (induction xs arbitrary: f)
  case Nil
  then show ?case by (simp add: keeps_refl)
next
  case (Cons x xs)
  from Cons.prems(2) obtain f1 where 1: "step x f = Inr f1" and 2: "foldE step xs f1 = Inr f'"
    by (auto simp: bindE_Inr_iff)
  have k1: "keeps c f f1" using Cons.prems(1) 1 Cons.prems(3) by simp
  then have r1: "rooted c f1" using Cons.prems(3) by (rule keeps_rooted)
  have "\<forall>x \<in> set xs. \<forall>f f'. step x f = Inr f' \<longrightarrow> rooted c f \<longrightarrow> keeps c f f'"
    using Cons.prems(1) by simp
  then have "keeps c f1 f'" using 2 r1 by (rule Cons.IH)
  with k1 show ?case by (rule keeps_trans)
qed

lemma createPluginsJs_keeps: "createPluginsJs ps c f = Inr f' \<Longrightarrow> keeps c f f'"
  unfolding createPluginsJs_def manifest_path by (erule writeFile_keeps) simp

lemma copyCustomAdmin_keeps:
  "copyCustomAdmin src (c @ xs) f = Inr f' \<Longrightarrow> rooted c f \<Longrightarrow> keeps c f f'"
  unfolding copyCustomAdmin_def
  by (erule copy_keeps) (simp_all add: path_join_plain plain_segment_def strict_prefix_def)

lemma copyExtension_keeps:
  assumes "copyExtension dir c s f = Inr f'" and "rooted c f"
    and "plain_segment (''strapi-plugin-'' @ s)"
  shows "keeps c f f'"
proof -
  have "path_join c [''plugins'', ''strapi-plugin-'' @ s] = c @ [''plugins'', ''strapi-plugin-'' @ s]"
    using assms(3) by (simp add: path_join_plain plain_segment_def)
  with assms(1) have "copyCustomAdmin (path_join dir [''extensions'', s, ''admin''])
      (c @ [''plugins'', ''strapi-plugin-'' @ s]) f = Inr f'"
    by (simp add: copyExtension_def)
  then show ?thesis using assms(2) by (rule copyCustomAdmin_keeps)
qed

lemma pluginsToOverride_set:
  "set (pluginsToOverride f dir ps) =
     {shortName n | n. n \<in> set ps \<and>
        pathExistsSync f (path_join dir [''extensions'', shortName n, ''admin''])}"
proof -
  have "\<And>acc. set (foldl (\<lambda>acc current.
              let pluginName = shortName current
              in if pathExistsSync f (path_join dir [''extensions'', pluginName, ''admin''])
                 then acc @ [pluginName] else acc) acc ps) =
        set acc \<union> {shortName n | n. n \<in> set ps \<and>
        pathExistsSync f (path_join dir [''extensions'', shortName n, ''admin''])}"
    by (induction ps) (auto simp: Let_def)
  then show ?thesis by (simp add: pluginsToOverride_def)
qed

lemma fill_cache_keeps:
  assumes "fill_cache e dir ps f1 = Inr f'" and "rooted (dir @ [''.cache'']) f1"
    and "\<forall>n \<in> set ps. startsWith n ''strapi-plugin'' \<and> CHR ''/'' \<notin> set n"
  shows "keeps (dir @ [''.cache'']) f1 f'"
proof -
  let ?c = "dir @ [''.cache'']"
  from assms(1) obtain f2 f3 f4 f5 where
    2: "copyAdmin e ?c f1 = Inr f2" and
    3: "foldE (copyPlugin e ?c) ps f2 = Inr f3" and
    4: "createPluginsJs ps ?c f3 = Inr f4" and
    5: "(if pathExistsSync f4 (path_join dir [''admin''])
         then copyCustomAdmin (path_join dir [''admin'']) ?c f4 else Inr f4) = Inr f5" and
    6: "foldE (copyExtension dir ?c) (pluginsToOverride f5 dir ps) f5 = Inr f'"
    unfolding fill_cache_def Let_def path_join_cache bindE_Inr_iff by blast
  have k2: "keeps ?c f1 f2" using 2 assms(2) by (rule copyAdmin_keeps)
  then have r2: "rooted ?c f2" using assms(2) by (rule keeps_rooted)
  have k3: "keeps ?c f2 f3"
  proof (rule foldE_keeps[OF _ 3 r2], intro ballI allI impI)
    fix x f f' assume "x \<in> set ps" "copyPlugin e ?c x f = Inr f'" "rooted ?c f"
    then show "keeps ?c f f'"
      using assms(3) plugin_name_plain by (auto intro: copyPlugin_keeps)
  qed
  then have r3: "rooted ?c f3" using r2 by (rule keeps_rooted)
  have k4: "keeps ?c f3 f4" using 4 by (rule createPluginsJs_keeps)
  then have r4: "rooted ?c f4" using r3 by (rule keeps_rooted)
  have k5: "keeps ?c f4 f5"
  proof (cases "pathExistsSync f4 (path_join dir [''admin''])")
    case True
    with 5 have "copyCustomAdmin (path_join dir [''admin'']) (?c @ []) f4 = Inr f5" by simp
    then show ?thesis using r4 by (rule copyCustomAdmin_keeps)
  next
    case False
    with 5 show ?thesis by (simp add: keeps_refl)
  qed
  then have r5: "rooted ?c f5" using r4 by (rule keeps_rooted)
  have k6: "keeps ?c f5 f'"
  proof (rule foldE_keeps[OF _ 6 r5], intro ballI allI impI)
    fix x f f'
    assume x: "x \<in> set (pluginsToOverride f5 dir ps)"
      and s: "copyExtension dir ?c x f = Inr f'" and r: "rooted ?c f"
    from x obtain n where "n \<in> set ps" "x = shortName n"
      by (auto simp: pluginsToOverride_set)
    with assms(3) have "plain_segment (''strapi-plugin-'' @ x)"
      using extension_name_plain by simp
    with s r show "keeps ?c f f'" by (rule copyExtension_keeps)
  qed
  from k2 k3 k4 k5 k6 show ?thesis by (blast intro: keeps_trans)
qed

subsection \<open>Building the cache twice\<close>

lemma fill_cache_fun:
  "fill_cache e dir ps =
     (\<lambda>fs1. bindE (copyAdmin e (dir @ [''.cache'']) fs1) (\<lambda>fs2.
      bindE (foldE (copyPlugin e (dir @ [''.cache''])) ps fs2) (\<lambda>fs3.
      bindE (createPluginsJs ps (dir @ [''.cache'']) fs3) (\<lambda>fs4.
      bindE (if pathExistsSync fs4 (path_join dir [''admin''])
             then copyCustomAdmin (path_join dir [''admin'']) (dir @ [''.cache'']) fs4
             else Inr fs4) (\<lambda>fs5.
      foldE (copyExtension dir (dir @ [''.cache''])) (pluginsToOverride fs5 dir ps) fs5)))))"
  by (rule ext) (simp only: fill_cache_def Let_def path_join_cache)

lemma createCacheDir_split:
  "createCacheDir e fs dir =
     bindE (activePlugins e fs dir) (\<lambda>ps.
       bindE (emptyDir fs (dir @ [''.cache''])) (fill_cache e dir ps))"
  by (simp only: createCacheDir_def fill_cache_fun Let_def path_join_cache)

lemma createCacheDir_Inr:
  assumes "createCacheDir e fs dir = Inr fs'"
  obtains ps fs1 where "activePlugins e fs dir = Inr ps"
    and "emptyDir fs (dir @ [''.cache'']) = Inr fs1" and "fill_cache e dir ps fs1 = Inr fs'"
  using assms unfolding createCacheDir_split bindE_Inr_iff by blast

lemma emptyDir_rooted: "emptyDir f c = Inr f1 \<Longrightarrow> rooted c f1"
  using emptyDir_Inr[of f c f1] by (simp add: rooted_def above_not_below mkdirs_prefix)

lemma filterE_cong: "\<forall>x \<in> set xs. f x = g x \<Longrightarrow> filterE f xs = filterE g xs"
  by (induction xs) simp_all

lemma activePlugins_Inr:
  assumes "activePlugins e fs dir = Inr ps"
  obtains deps where "dependency_keys e (path_join dir [''package.json'']) = Inr deps"
    and "filterE (hasAdminEntry e fs) deps = Inr ps"
  using assms unfolding activePlugins_def bindE_Inr_iff by blast

lemma activePlugins_filter:
  assumes "dependency_keys e (path_join dir [''package.json'']) = Inr deps"
  shows "activePlugins e fs dir = Inr ps \<longleftrightarrow>
            (\<forall>d \<in> set deps. startsWith d ''strapi-plugin'' \<longrightarrow> packages e d \<noteq> None) \<and>
            ps = filter (\<lambda>d. startsWith d ''strapi-plugin'' \<and>
                          (\<exists>root. packages e d = Some root \<and>
                             pathExistsSync fs (path_join root [''admin'', ''src'', ''index.js''])))
                   deps"
proof -
  have "activePlugins e fs dir = filterE (hasAdminEntry e fs) deps"
    using assms by (simp add: activePlugins_def)
  then show ?thesis
    by (simp only: filterE_Inr_iff hasAdminEntry_total hasAdminEntry_True)
qed

lemma apart_append: "apart c a \<Longrightarrow> apart c (a @ r)"
  unfolding apart_def using not_prefix_append[of c a r] not_prefix_append[of a c]
  by (auto simp: prefix_def)

lemma apart_sym: "apart a b \<Longrightarrow> apart b a"
  by (simp add: apart_def)

lemma keeps_apart:
  assumes "emptyDir fs c = Inr fs1" and "keeps c fs1 fs'" and "apart c p"
  shows "nodes fs' p = nodes fs p"
proof -
  from assms(3) have 1: "\<not> strict_prefix c p" and 2: "\<not> prefix p c"
    by (auto simp: apart_def strict_prefix_def)
  from assms(2) 1 have "nodes fs' p = nodes fs1 p" by (simp add: keeps_def)
  also have "\<dots> = nodes fs p"
    using emptyDir_Inr[OF assms(1)] 1 2 by (simp add: mkdirs_apart)
  finally show ?thesis .
qed

lemma fixed_project_plugins:
  assumes "fixed_project e dir"
    and "dependency_keys e (path_join dir [''package.json'']) = Inr deps"
    and "d \<in> set deps" and "startsWith d ''strapi-plugin''"
  shows "CHR ''/'' \<notin> set d"
    and "packages e d = Some root \<Longrightarrow> apart (dir @ [''.cache'']) (root @ [''admin''])"
    and "packages e d = Some root \<Longrightarrow> apart (dir @ [''.cache'']) (root @ [''config'', ''layout.js''])"
    and "packages e d = Some root \<Longrightarrow> apart (dir @ [''.cache'']) (root @ [''package.json''])"
  using assms by (auto simp: fixed_project_def plugin_sources_def)

lemma emptyDir_again:
  assumes e1: "emptyDir fs c = Inr fs1" and k: "keeps c fs1 fs'"
  shows "emptyDir fs' c = Inr fs1"
proof -
  note E = emptyDir_Inr[OF e1]
  have d: "denied fs' = denied fs" using k E by (simp add: keeps_def)
  have at: "nodes fs' q = mkdirs (nodes fs) c q" if "\<not> strict_prefix c q" for q
    using that k E by (simp add: keeps_def)
  have way: "\<not> file_on_way fs' c"
  proof
    assume "file_on_way fs' c"
    then obtain q where q: "prefix q c" "is_file (nodes fs' q)"
      by (auto simp: file_on_way_def list_ex_iff)
    then have "is_file (mkdirs (nodes fs) c q)" using at above_not_below by simp
    then have "is_file (nodes fs q)"
      by (auto simp: mkdirs_def is_file_def split: option.splits if_splits)
    with q(1) have "file_on_way fs c" by (auto simp: file_on_way_def list_ex_iff)
    with E show False by simp
  qed
  have n: "(\<lambda>q. if strict_prefix c q then None else mkdirs (nodes fs') c q) = nodes fs1"
  proof
    fix q
    show "(if strict_prefix c q then None else mkdirs (nodes fs') c q) = nodes fs1 q"
    proof (cases "strict_prefix c q")
      case True
      then show ?thesis using E by simp
    next
      case False
      then have "mkdirs (nodes fs') c q = mkdirs (mkdirs (nodes fs) c) c q"
        using at by (simp add: mkdirs_def)
      then show ?thesis using False E by (simp add: mkdirs_idem)
    qed
  qed
  have "fs'\<lparr>nodes := nodes fs1\<rparr> = fs1"
    using k by (intro filesys.equality) (simp_all add: keeps_def)
  then show ?thesis
    using d E way n by (simp add: emptyDir_def)
qed

lemma demo_fixed: "fixed_project demo_env [''proj'']"
  unfolding fixed_project_def demo_deps
  by (simp add: demo_env_def demo_packages_def startsWith_def apart_def
      base_sources_def plugin_sources_def)

text \<open>
  C3. In a project whose layers stay as they are while the cache is built, a second
  call of \<^verbatim>\<open>createCacheDir\<close>, made on the disk that the first call has left, ends
  normally and leaves that same disk.
\<close>

theorem materialize_twice:
  assumes "createCacheDir e fs dir = Inr fs'" and "fixed_project e dir"
  shows "createCacheDir e fs' dir = Inr fs'"
proof -
  let ?c = "dir @ [''.cache'']"
  from assms(1) obtain ps fs1 where
    ap: "activePlugins e fs dir = Inr ps" and
    ed: "emptyDir fs ?c = Inr fs1" and
    fc: "fill_cache e dir ps fs1 = Inr fs'"
    by (rule createCacheDir_Inr)
  from ap obtain deps where
    deps: "dependency_keys e (path_join dir [''package.json'']) = Inr deps"
    by (rule activePlugins_Inr)
  note A = activePlugins_filter[OF deps]
  from ap A[of fs ps] have
    res: "\<forall>d \<in> set deps. startsWith d ''strapi-plugin'' \<longrightarrow> packages e d \<noteq> None" and
    ps: "ps = filter (\<lambda>d. startsWith d ''strapi-plugin'' \<and>
                          (\<exists>root. packages e d = Some root \<and>
                             pathExistsSync fs (path_join root [''admin'', ''src'', ''index.js''])))
                   deps"
    by simp_all
  have names: "\<forall>n \<in> set ps. startsWith n ''strapi-plugin'' \<and> CHR ''/'' \<notin> set n"
    using ps fixed_project_plugins(1)[OF assms(2) deps] by auto
  have k: "keeps ?c fs1 fs'"
    using fc emptyDir_rooted[OF ed] names by (rule fill_cache_keeps)
  have ed': "emptyDir fs' ?c = Inr fs1" using ed k by (rule emptyDir_again)
  have same: "pathExistsSync fs' (path_join root [''admin'', ''src'', ''index.js'']) =
              pathExistsSync fs (path_join root [''admin'', ''src'', ''index.js''])"
    if "d \<in> set deps" "startsWith d ''strapi-plugin''" "packages e d = Some root" for d root
  proof -
    have "apart ?c ((root @ [''admin'']) @ [''src'', ''index.js''])"
      using fixed_project_plugins(2)[OF assms(2) deps that] by (rule apart_append)
    then have "nodes fs' (root @ [''admin'', ''src'', ''index.js'']) =
               nodes fs (root @ [''admin'', ''src'', ''index.js''])"
      using keeps_apart[OF ed k] by simp
    then show ?thesis
      by (simp add: pathExistsSync_def path_join_plain plain_segment_def)
  qed
  have "filter (\<lambda>d. startsWith d ''strapi-plugin'' \<and>
                          (\<exists>root. packages e d = Some root \<and>
                             pathExistsSync fs' (path_join root [''admin'', ''src'', ''index.js''])))
                   deps = ps"
    unfolding ps by (rule filter_cong) (auto simp: same)
  then have ap': "activePlugins e fs' dir = Inr ps"
    using A[of fs' ps] res by simp
  show ?thesis
    using ap' ed' fc by (simp add: createCacheDir_split)
qed

theorem materialize_twice_witness:
  "\<exists>fs'. createCacheDir demo_env demo_fs [''proj''] = Inr fs' \<and>
         fixed_project demo_env [''proj''] \<and>
         createCacheDir demo_env fs' [''proj''] = Inr fs'"
proof -
  from demo_ok obtain fs' where 1: "createCacheDir demo_env demo_fs [''proj''] = Inr fs'"
    unfolding isOK_iff ..
  from 1 demo_fixed have "createCacheDir demo_env fs' [''proj''] = Inr fs'"
    by (rule materialize_twice)
  with 1 demo_fixed show ?thesis by (intro exI[of _ fs'] conjI)
qed

end
